theory Spec2Isabelle
  imports Main "HOL-Library.Word"
begin

unbundle bit_operations_syntax

section \<open>SortMeRNA index traversal: \<^verbatim>\<open>paralleltraversal.cpp\<close>\<close>

text \<open>
  A shallow embedding of \<^verbatim>\<open>format_forward\<close> and of the per-read callback
  \<^verbatim>\<open>parallelTraversalJob\<close>.

  Conventions.
  \<^item> A \<^verbatim>\<open>uint32_t\<close> variable holds a natural number below \<open>2 ^ 32\<close>; every store into such
    a variable goes through \<open>u32\<close>, every \<^verbatim>\<open>size_t\<close> computation through \<open>u64\<close>.
    The half-window keys, which are shifted and OR-ed, are \<open>32 word\<close>.
  \<^item> A read of a vector, a string or a buffer is bounds-checked: outside the container the C++
    program has undefined behaviour, the model returns an \<open>error\<close>.
  \<^item> The process-wide flags (\<^verbatim>\<open>num_alignments_gv\<close>, ...) and the functions of other
    translation units (\<^verbatim>\<open>init_win_f\<close>, \<^verbatim>\<open>init_win_r\<close>, \<^verbatim>\<open>traversetrie_align\<close>,
    \<^verbatim>\<open>compute_lis_alignment\<close>, the table \<^verbatim>\<open>nt_table\<close>) are parameters.
\<close>

subsection \<open>Machine integers\<close>

definition u32 :: "nat \<Rightarrow> nat" where
  "u32 n = n mod 2 ^ 32"

definition u64 :: "nat \<Rightarrow> nat" where
  "u64 n = n mod 2 ^ 64"

datatype error =
    DivisionByZero
  | StrideIndexOutOfRange
  | SequenceIndexOutOfRange
  | HitsIndexOutOfRange
  | LookupIndexOutOfRange

text \<open>\<^verbatim>\<open>v[i]\<close> on a vector or string: defined inside the container only.\<close>

definition at :: "'a list \<Rightarrow> nat \<Rightarrow> 'a option" where
  "at xs i = (if i < length xs then Some (xs ! i) else None)"

subsection \<open>\<^verbatim>\<open>format_forward\<close>\<close>

text \<open>
  \<^verbatim>\<open>read_seq\<close> is the list of bytes from the pointer to the end of its buffer; the result is
  the list of bytes written through \<^verbatim>\<open>myread\<close>, the closing newline included. The table
  \<^verbatim>\<open>nt_table\<close>, of another translation unit, is a parameter: the list of its entries.
  \<^verbatim>\<open>nt_table[(int)*read_seq]\<close> converts a \<^verbatim>\<open>char\<close>, signed on the program's platforms, so a
  byte from \<open>0x80\<close> on gives a negative index; a read before or behind the table, and a read
  behind the input buffer, are errors.
\<close>

datatype format_error = ReadBufferOverrun | NtTableIndexOutOfRange

definition nt_index :: "char \<Rightarrow> int" where
  "nt_index c = (if of_char c < (128 :: nat) then int (of_char c) else int (of_char c) - 256)"

definition nt_lookup :: "char list \<Rightarrow> char \<Rightarrow> char option" where
  "nt_lookup nt_table c = (if 0 \<le> nt_index c then at nt_table (nat (nt_index c)) else None)"

definition fasta_guard :: "char \<Rightarrow> bool" where
  "fasta_guard c = (c \<noteq> CHR 0x0A \<or> c \<noteq> CHR 0x0D)"

fun format_forward_fasta :: "char list \<Rightarrow> char list \<Rightarrow> char list \<Rightarrow> format_error + char list" where
  "format_forward_fasta nt_table [] myread = Inl ReadBufferOverrun"
| "format_forward_fasta nt_table (c # read_seq) myread =
     (if c \<noteq> CHR 0x00 \<and> c \<noteq> CHR ''>''
      then (if fasta_guard c
            then (case nt_lookup nt_table c of
                    None \<Rightarrow> Inl NtTableIndexOutOfRange
                  | Some b \<Rightarrow> format_forward_fasta nt_table read_seq (myread @ [b]))
            else format_forward_fasta nt_table read_seq myread)
      else Inr (myread @ [CHR 0x0A]))"

fun format_forward_fastq :: "char list \<Rightarrow> char list \<Rightarrow> char list \<Rightarrow> format_error + char list" where
  "format_forward_fastq nt_table [] myread = Inl ReadBufferOverrun"
| "format_forward_fastq nt_table (c # read_seq) myread =
     (if c \<noteq> CHR 0x0A \<and> c \<noteq> CHR 0x0D
      then (case nt_lookup nt_table c of
              None \<Rightarrow> Inl NtTableIndexOutOfRange
            | Some b \<Rightarrow> format_forward_fastq nt_table read_seq (myread @ [b]))
      else Inr (myread @ [CHR 0x0A]))"

definition format_forward :: "char list \<Rightarrow> char list \<Rightarrow> char \<Rightarrow> format_error + char list" where
  "format_forward nt_table read_seq filesig =
     (if filesig = CHR ''>'' then format_forward_fasta nt_table read_seq []
      else format_forward_fastq nt_table read_seq [])"

subsection \<open>Data model\<close>

text \<open>A seed hit \<^verbatim>\<open>id_win\<close>: the identifier of the reference seed and the window offset.\<close>

record id_win =
  hit_id :: nat
  win :: nat

text \<open>
  Modelled from the spec: the declaration of \<^verbatim>\<open>Read\<close> (\<^verbatim>\<open>read.hpp\<close>) is not among the sources.
  The fields are those the callback reads or writes, with the types their use implies; the
  field \<^verbatim>\<open>alignments\<close>, which the callback never names, is the list of accepted alignments of
  the spec's data model (opaque records, here their scores).
\<close>

record Read =
  id_read :: nat
  sequence :: "char list"
  isequence :: "8 word list"
  lastIndex :: nat
  lastPart :: nat
  num_alignments :: int
  max_SW_score :: nat
  isValid :: bool
  hit :: bool
  hit_denovo :: bool
  id_win_hits :: "id_win list"
  readhit :: nat
  alignments :: "nat list"

record Readstats =
  min_read_len :: nat
  max_read_len :: nat
  total_reads_denovo_clustering :: nat

text \<open>An entry of \<^verbatim>\<open>lookup_tbl\<close>; a trie pointer is an opaque handle, \<open>None\<close> is \<^verbatim>\<open>NULL\<close>.\<close>

record kmer_origin =
  count :: nat
  trie_F :: "nat option"
  trie_R :: "nat option"

text \<open>
  \<^verbatim>\<open>Index\<close> with \<^verbatim>\<open>index.opts\<close> flattened. The per-index tables are functions of the index
  number; the strides of one index are a vector, read with bounds checks. \<^verbatim>\<open>lookup_tbl\<close> is
  the list of its entries, as long as the table the index was loaded with, and is read with
  bounds checks at the value of the key.
\<close>

record Index =
  index_num :: nat
  part :: nat
  forward :: bool
  match_score :: int
  skiplengths :: "nat \<Rightarrow> 32 word list"
  lnwin :: "nat \<Rightarrow> 32 word"
  partialwin :: "nat \<Rightarrow> 32 word"
  numbvs :: "nat \<Rightarrow> 32 word"
  lookup_tbl :: "kmer_origin list"

record globals =
  num_alignments_gv :: int
  num_best_hits_gv :: int
  min_lis_gv :: int
  de_novo_otu_gv :: bool

subsection \<open>Half-window keys\<close>

text \<open>
  The loop \<^verbatim>\<open>for (g = 0; g < partialwin; g++) { (key <<= 2) |= (uint32_t)(*ptr); ++ptr; }\<close>,
  with \<open>ptr\<close> the offset of the pointer in \<^verbatim>\<open>read.isequence\<close>. \<^verbatim>\<open>char\<close> is signed on the
  program's platforms, so the conversion sign-extends.
\<close>

function key_loop :: "8 word list \<Rightarrow> nat \<Rightarrow> nat \<Rightarrow> nat \<Rightarrow> 32 word \<Rightarrow> 32 word option" where
  "key_loop iseq pw g ptr key =
     (if g < pw then
        (case at iseq ptr of
           None \<Rightarrow> None
         | Some c \<Rightarrow> key_loop iseq pw (g + 1) (ptr + 1) (push_bit 2 key OR scast c))
      else Some key)"
  by pat_completeness auto
termination
  by (relation "measure (\<lambda>(iseq, pw, g, ptr, key). pw - g)") auto

declare key_loop.simps [simp del]

definition keyf_of :: "Index \<Rightarrow> Read \<Rightarrow> nat \<Rightarrow> 32 word option" where
  "keyf_of index read win_index =
     key_loop (isequence read) (unat (partialwin index (index_num index))) 0 win_index 0"

definition keyr_of :: "Index \<Rightarrow> Read \<Rightarrow> nat \<Rightarrow> 32 word option" where
  "keyr_of index read win_index =
     key_loop (isequence read) (unat (partialwin index (index_num index))) 0
       (u32 (win_index + unat (partialwin index (index_num index)))) 0"

text \<open>The packing the specification describes: shift by two bits and OR, first character first.\<close>

definition shift_or :: "32 word \<Rightarrow> 8 word \<Rightarrow> 32 word" where
  "shift_or key c = push_bit 2 key OR scast c"

definition pack_spec :: "8 word list \<Rightarrow> 32 word" where
  "pack_spec cs = foldl shift_or 0 cs"

subsection \<open>Functions of other translation units\<close>

text \<open>
  \<^verbatim>\<open>init_win_f\<close> and \<^verbatim>\<open>init_win_r\<close> receive the encoded sequence, the offset their pointer
  argument points at, the zero-filled bit vector and \<^verbatim>\<open>numbvs\<close>, and give the bit vector
  back. \<^verbatim>\<open>traversetrie_align\<close> receives the trie, the bit vector, the offset of its second
  pointer, \<^verbatim>\<open>accept_zero_kmer\<close>, \<^verbatim>\<open>id_hits\<close>, \<^verbatim>\<open>read.id\<close>, \<^verbatim>\<open>win_index\<close> and the half-window
  length (its second and third arguments are the constant 0 at both calls and are left out);
  it gives back the two it takes by reference. \<^verbatim>\<open>compute_lis_alignment\<close> receives the
  index, the read, the statistics, \<^verbatim>\<open>search\<close>, \<^verbatim>\<open>max_SW_score\<close> and \<^verbatim>\<open>read_to_count\<close>, and gives
  back the read, the statistics, \<^verbatim>\<open>search\<close> and \<^verbatim>\<open>read_to_count\<close>. The references and the
  output sink, which the callback only passes on, are left out.
\<close>

record externals =
  init_win_f :: "8 word list \<Rightarrow> nat \<Rightarrow> nat list \<Rightarrow> nat \<Rightarrow> nat list"
  init_win_r :: "8 word list \<Rightarrow> nat \<Rightarrow> nat list \<Rightarrow> nat \<Rightarrow> nat list"
  traversetrie_align ::
    "nat \<Rightarrow> nat list \<Rightarrow> nat \<Rightarrow> bool \<Rightarrow> id_win list \<Rightarrow> nat \<Rightarrow> nat \<Rightarrow> nat \<Rightarrow> bool \<times> id_win list"
  compute_lis_alignment ::
    "Index \<Rightarrow> Read \<Rightarrow> Readstats \<Rightarrow> bool \<Rightarrow> nat \<Rightarrow> bool \<Rightarrow> Read \<times> Readstats \<times> bool \<times> bool"

subsection \<open>One window\<close>

definition minoccur :: nat where
  "minoccur = 0"

text \<open>\<^verbatim>\<open>(partialwin - 2) << 2\<close> and \<^verbatim>\<open>(partialwin - 3) << 2\<close>, in \<^verbatim>\<open>uint32_t\<close>.\<close>

definition bit_vector_size :: "Index \<Rightarrow> nat" where
  "bit_vector_size index = u32 (u32 (unat (partialwin index (index_num index)) + 2 ^ 32 - 2) * 4)"

definition offset :: "Index \<Rightarrow> nat" where
  "offset index = u32 (u32 (unat (partialwin index (index_num index)) + 2 ^ 32 - 3) * 4)"

text \<open>The locals of one window that the traversals change: \<^verbatim>\<open>accept_zero_kmer\<close> and \<^verbatim>\<open>id_hits\<close>.\<close>

record window_search =
  accept_zero_kmer :: bool
  id_hits :: "id_win list"

text \<open>
  Subsearch 1a: the bit vector of the forward half, then
  \<^verbatim>\<open>if ((index.lookup_tbl[keyf].count > minoccur) && (index.lookup_tbl[keyf].trie_F != NULL))\<close>
  and the traversal of \<^verbatim>\<open>trie_F\<close>, entered with \<^verbatim>\<open>accept_zero_kmer\<close> false and \<^verbatim>\<open>id_hits\<close> empty.
\<close>

definition subsearch_1a ::
  "externals \<Rightarrow> Index \<Rightarrow> Read \<Rightarrow> nat \<Rightarrow> 32 word \<Rightarrow> error + window_search" where
  "subsearch_1a ext index read win_index keyf =
     (let pw = unat (partialwin index (index_num index));
          vbitwindowsf = init_win_f ext (isequence read) (u32 (win_index + pw))
                           (replicate (bit_vector_size index) 0) (unat (numbvs index (index_num index)))
      in case at (lookup_tbl index) (unat keyf) of
           None \<Rightarrow> Inl LookupIndexOutOfRange
         | Some entry \<Rightarrow>
             (case (if count entry > minoccur then trie_F entry else None) of
                Some trie \<Rightarrow>
                  (case traversetrie_align ext trie vbitwindowsf (offset index) False []
                          (id_read read) win_index pw of
                     (a, hits) \<Rightarrow> Inr \<lparr>accept_zero_kmer = a, id_hits = hits\<rparr>)
              | None \<Rightarrow> Inr \<lparr>accept_zero_kmer = False, id_hits = []\<rparr>))"

text \<open>
  Subsearch 1b, entered when \<^verbatim>\<open>accept_zero_kmer\<close> is still false: the bit vector of the
  reverse half, then the same test on \<^verbatim>\<open>index.lookup_tbl[keyr]\<close> and \<^verbatim>\<open>trie_R\<close>, and the traversal
  of \<^verbatim>\<open>trie_R\<close> with the two locals as subsearch 1a left them.
\<close>

definition subsearch_1b ::
  "externals \<Rightarrow> Index \<Rightarrow> Read \<Rightarrow> nat \<Rightarrow> 32 word \<Rightarrow> window_search \<Rightarrow> error + window_search" where
  "subsearch_1b ext index read win_index keyr s =
     (let pw = unat (partialwin index (index_num index));
          vbitwindowsr = init_win_r ext (isequence read) (u32 (u32 (win_index + pw) + 2 ^ 32 - 1))
                           (replicate (bit_vector_size index) 0) (unat (numbvs index (index_num index)))
      in case at (lookup_tbl index) (unat keyr) of
           None \<Rightarrow> Inl LookupIndexOutOfRange
         | Some entry \<Rightarrow>
             (case (if count entry > minoccur then trie_R entry else None) of
                Some trie \<Rightarrow>
                  (case traversetrie_align ext trie vbitwindowsr (offset index)
                          (accept_zero_kmer s) (id_hits s) (id_read read) win_index pw of
                     (a, hits) \<Rightarrow> Inr \<lparr>accept_zero_kmer = a, id_hits = hits\<rparr>)
              | None \<Rightarrow> Inr s))"

text \<open>The block of one window between the flip of its bit and \<^verbatim>\<open>check_score\<close>.\<close>

definition window_probe :: "externals \<Rightarrow> Index \<Rightarrow> Read \<Rightarrow> nat \<Rightarrow> error + window_search" where
  "window_probe ext index read win_index =
     (case keyf_of index read win_index of
        None \<Rightarrow> Inl SequenceIndexOutOfRange
      | Some keyf \<Rightarrow>
          (case subsearch_1a ext index read win_index keyf of
             Inl e \<Rightarrow> Inl e
           | Inr s \<Rightarrow>
               if \<not> accept_zero_kmer s then
                 (case keyr_of index read win_index of
                    None \<Rightarrow> Inl SequenceIndexOutOfRange
                  | Some keyr \<Rightarrow> subsearch_1b ext index read win_index keyr s)
               else Inr s))"

definition associate_hits :: "window_search \<Rightarrow> Read \<Rightarrow> Read" where
  "associate_hits s read =
     (if id_hits s \<noteq> []
      then read\<lparr>id_win_hits := id_win_hits read @ id_hits s, readhit := u32 (readhit read + 1)\<rparr>
      else read)"

subsection \<open>The passes\<close>

text \<open>The read, the statistics and the locals of the callback that the search loop changes.\<close>

record search_state =
  s_read :: Read
  s_readstats :: Readstats
  read_index_hits :: "bool list"
  windowshift :: nat
  pass_n :: nat
  search :: bool
  read_to_count :: bool
  max_SW_score_local :: nat

text \<open>One iteration of the window loop, up to the label \<^verbatim>\<open>check_score\<close>.\<close>

definition window_body :: "externals \<Rightarrow> Index \<Rightarrow> nat \<Rightarrow> search_state \<Rightarrow> error + search_state" where
  "window_body ext index win_index st =
     (case at (read_index_hits st) win_index of
        None \<Rightarrow> Inl HitsIndexOutOfRange
      | Some True \<Rightarrow> Inr st
      | Some False \<Rightarrow>
          (case window_probe ext index (s_read st) win_index of
             Inl e \<Rightarrow> Inl e
           | Inr s \<Rightarrow>
               Inr (st\<lparr>read_index_hits := (read_index_hits st)[win_index := True],
                       s_read := associate_hits s (s_read st)\<rparr>)))"

text \<open>
  \<^verbatim>\<open>while ((pass_n < 3) && (skiplengths[..][pass_n] == skiplengths[..][pass_n + 1])) ++pass_n;\<close>
\<close>

function skip_equal :: "32 word list \<Rightarrow> nat \<Rightarrow> error + nat" where
  "skip_equal sk n =
     (if n < 3 then
        (case at sk n of
           None \<Rightarrow> Inl StrideIndexOutOfRange
         | Some a \<Rightarrow>
             (case at sk (n + 1) of
                None \<Rightarrow> Inl StrideIndexOutOfRange
              | Some b \<Rightarrow> if a = b then skip_equal sk (n + 1) else Inr n))
      else Inr n)"
  by pat_completeness auto
termination
  by (relation "measure (\<lambda>(sk, n). 3 - n)") auto

declare skip_equal.simps [simp del]

text \<open>The block \<^verbatim>\<open>if (search) { ... }\<close> after the chainer, entered with \<^verbatim>\<open>search\<close> true.\<close>

definition next_pass :: "Index \<Rightarrow> search_state \<Rightarrow> error + search_state" where
  "next_pass index st =
     (if pass_n st = 2 then Inr (st\<lparr>search := False\<rparr>)
      else
        (case skip_equal (skiplengths index (index_num index)) (pass_n st) of
           Inl e \<Rightarrow> Inl e
         | Inr p \<Rightarrow>
             (if u32 (p + 1) > 2 then Inr (st\<lparr>pass_n := u32 (p + 1), search := False\<rparr>)
              else
                (case at (skiplengths index (index_num index)) (u32 (p + 1)) of
                   None \<Rightarrow> Inl StrideIndexOutOfRange
                 | Some w \<Rightarrow> Inr (st\<lparr>pass_n := u32 (p + 1), windowshift := unat w\<rparr>)))))"

text \<open>The block \<^verbatim>\<open>if (win_num == numwin - 1) { ... break; }\<close>.\<close>

definition last_window :: "externals \<Rightarrow> Index \<Rightarrow> search_state \<Rightarrow> error + search_state" where
  "last_window ext index st =
     (case compute_lis_alignment ext index (s_read st) (s_readstats st) (search st)
             (max_SW_score_local st) (read_to_count st) of
        (r, rs, srch, rtc) \<Rightarrow>
          (let st' = st\<lparr>s_read := r, s_readstats := rs, search := srch, read_to_count := rtc\<rparr>
           in if srch then next_pass index st' else Inr st'))"

text \<open>The window loop of one pass: \<^verbatim>\<open>for (win_num = 0; win_num < numwin; win_num++)\<close>.\<close>

function window_loop ::
  "externals \<Rightarrow> Index \<Rightarrow> nat \<Rightarrow> nat \<Rightarrow> nat \<Rightarrow> search_state \<Rightarrow> error + search_state" where
  "window_loop ext index numwin win_num win_index st =
     (if win_num < numwin then
        (case window_body ext index win_index st of
           Inl e \<Rightarrow> Inl e
         | Inr st' \<Rightarrow>
             if win_num = numwin - 1 then last_window ext index st'
             else window_loop ext index numwin (win_num + 1) (u32 (win_index + windowshift st')) st')
      else Inr st)"
  by pat_completeness auto
termination
  by (relation "measure (\<lambda>(ext, index, numwin, win_num, win_index, st). numwin - win_num)") auto

declare window_loop.simps [simp del]

text \<open>
  \<^verbatim>\<open>numwin = (read.sequence.size() - lnwin + windowshift) / windowshift\<close>: the operands are
  \<^verbatim>\<open>size_t\<close>, the quotient is stored in a \<^verbatim>\<open>uint32_t\<close>.
\<close>

definition numwin_of :: "Index \<Rightarrow> search_state \<Rightarrow> nat" where
  "numwin_of index st =
     u32 (u64 (u64 (length (sequence (s_read st)) + 2 ^ 64 - unat (lnwin index (index_num index)))
               + windowshift st) div windowshift st)"

text \<open>
  The loop \<^verbatim>\<open>for (bool search = true; search; )\<close>. Each test of \<^verbatim>\<open>search\<close> takes one unit of
  fuel; \<open>None\<close> is a loop that has not ended when the fuel is spent.
\<close>

fun search_loop :: "nat \<Rightarrow> externals \<Rightarrow> Index \<Rightarrow> search_state \<Rightarrow> (error + search_state) option" where
  "search_loop 0 ext index st = None"
| "search_loop (Suc fuel) ext index st =
     (if search st then
        (if windowshift st = 0 then Some (Inl DivisionByZero)
         else
           (case window_loop ext index (numwin_of index st) 0 0 st of
              Inl e \<Rightarrow> Some (Inl e)
            | Inr st' \<Rightarrow> search_loop fuel ext index st'))
      else Some (Inr st))"

subsection \<open>\<^verbatim>\<open>parallelTraversalJob\<close>\<close>

datatype log_line = Warning_read_too_short nat nat

record job_state =
  j_read :: Read
  j_readstats :: Readstats
  cout :: "log_line list"

text \<open>The two \<^verbatim>\<open>return\<close>s for reverse reads.\<close>

definition early_termination :: "globals \<Rightarrow> Index \<Rightarrow> Read \<Rightarrow> bool" where
  "early_termination g index read =
     (\<not> forward index \<and>
      (if num_alignments_gv g > 0 then num_alignments read < 0
       else num_best_hits_gv g > 0 \<and> min_lis_gv g > 0 \<and> int (max_SW_score read) = num_best_hits_gv g))"

definition update_read_len :: "Read \<Rightarrow> Readstats \<Rightarrow> Readstats" where
  "update_read_len read stats =
     (let stats1 = (if length (sequence read) < min_read_len stats
                    then stats\<lparr>min_read_len := u32 (length (sequence read))\<rparr> else stats)
      in if length (sequence read) > max_read_len stats1
         then stats1\<lparr>max_read_len := u32 (length (sequence read))\<rparr> else stats1)"

text \<open>The statements after the search loop.\<close>

definition after_search :: "globals \<Rightarrow> Index \<Rightarrow> Read \<Rightarrow> Readstats \<Rightarrow> Read \<times> Readstats" where
  "after_search g index read stats =
     (let read1 = (if \<not> hit read \<and> \<not> forward index \<and> num_alignments_gv g > - 1
                   then (if de_novo_otu_gv g \<and> hit_denovo read
                         then read\<lparr>hit_denovo := \<not> hit_denovo read\<rparr> else read)
                   else read)
      in (read1,
          if de_novo_otu_gv g \<and> hit_denovo read1
          then stats\<lparr>total_reads_denovo_clustering := u64 (total_reads_denovo_clustering stats + 1)\<rparr>
          else stats))"

definition initial_search_state :: "Index \<Rightarrow> Read \<Rightarrow> Readstats \<Rightarrow> 32 word \<Rightarrow> search_state" where
  "initial_search_state index read stats w =
     \<lparr>s_read = read, s_readstats = stats,
      read_index_hits = replicate (length (sequence read)) False,
      windowshift = unat w, pass_n = 0, search = True, read_to_count = True,
      max_SW_score_local = nat ((int (length (sequence read)) * match_score index) mod 2 ^ 32)\<rparr>"

definition parallelTraversalJob ::
  "nat \<Rightarrow> globals \<Rightarrow> externals \<Rightarrow> Index \<Rightarrow> job_state \<Rightarrow> (error + job_state) option" where
  "parallelTraversalJob fuel g ext index job =
     (let read1 = (j_read job)\<lparr>lastIndex := index_num index, lastPart := part index\<rparr> in
      if early_termination g index read1 then Some (Inr (job\<lparr>j_read := read1\<rparr>))
      else
        (let stats1 = update_read_len read1 (j_readstats job) in
         if length (sequence read1) < unat (lnwin index (index_num index)) then
           Some (Inr (job\<lparr>j_read := read1\<lparr>isValid := False\<rparr>, j_readstats := stats1,
                        cout := cout job @
                          [Warning_read_too_short (id_read read1) (unat (lnwin index (index_num index)))]\<rparr>))
         else
           (case at (skiplengths index (index_num index)) 0 of
              None \<Rightarrow> Some (Inl StrideIndexOutOfRange)
            | Some w \<Rightarrow>
                (case search_loop fuel ext index (initial_search_state index read1 stats1 w) of
                   None \<Rightarrow> None
                 | Some (Inl e) \<Rightarrow> Some (Inl e)
                 | Some (Inr st) \<Rightarrow>
                     (case after_search g index (s_read st) (s_readstats st) of
                        (r, rs) \<Rightarrow> Some (Inr (job\<lparr>j_read := r, j_readstats := rs\<rparr>)))))))"

subsection \<open>What the proofs ask of the other translation units\<close>

text \<open>
  The chainer is expected to leave the nucleotides of the read alone, to add no seed hit of its
  own, and not to touch the read-length statistics; the traversal is expected to record its
  hits under the window offset it is given. Each statement below is a hypothesis of the
  theorems that need it, never a property of the model.
\<close>

definition chainer_keeps_sequence :: "externals \<Rightarrow> Index \<Rightarrow> bool" where
  "chainer_keeps_sequence ext index =
     (\<forall>r rs s m c. sequence (fst (compute_lis_alignment ext index r rs s m c)) = sequence r
                 \<and> isequence (fst (compute_lis_alignment ext index r rs s m c)) = isequence r)"

definition hits_record_window :: "externals \<Rightarrow> Index \<Rightarrow> bool" where
  "hits_record_window ext index =
     ((\<forall>trie bv off a hits rid w pw h.
         h \<in> set (snd (traversetrie_align ext trie bv off a hits rid w pw)) \<longrightarrow> h \<in> set hits \<or> win h = w)
      \<and> (\<forall>r rs s m c h.
         h \<in> set (id_win_hits (fst (compute_lis_alignment ext index r rs s m c))) \<longrightarrow> h \<in> set (id_win_hits r)))"

definition chainer_keeps_read_len :: "externals \<Rightarrow> Index \<Rightarrow> bool" where
  "chainer_keeps_read_len ext index =
     (\<forall>r rs s m c.
        min_read_len (fst (snd (compute_lis_alignment ext index r rs s m c))) = min_read_len rs
        \<and> max_read_len (fst (snd (compute_lis_alignment ext index r rs s m c))) = max_read_len rs)"


subsection \<open>Invariants of the search loop\<close>

text \<open>
  \<open>windows_in_bounds\<close>: every offset marked in \<^verbatim>\<open>read_index_hits\<close> leaves room for a full window.
  \<open>search_inv\<close> adds the lengths of the sequences and of the bit vector, the range of the
  stride, and (under \<open>R\<close>) the same bound for the seed hits added since the start; \<open>search_ok\<close>
  lifts it to a result of the loop, where under \<open>S\<close> no error is a read outside the encoded
  sequence. \<open>pass_inv\<close> ties the stride to the pass number and keeps the encoded nucleotides
  within the codes 0 to 3.
\<close>

definition windows_in_bounds :: "nat \<Rightarrow> nat \<Rightarrow> bool list \<Rightarrow> bool" where
  "windows_in_bounds n lw hits = (\<forall>i<length hits. hits ! i \<longrightarrow> i + lw \<le> n)"

definition search_inv :: "nat \<Rightarrow> nat \<Rightarrow> bool \<Rightarrow> id_win set \<Rightarrow> search_state \<Rightarrow> bool" where
  "search_inv n lw R H st =
     (length (sequence (s_read st)) = n \<and> length (isequence (s_read st)) = n
      \<and> length (read_index_hits st) = n \<and> windowshift st < 2 ^ 32
      \<and> windows_in_bounds n lw (read_index_hits st)
      \<and> (R \<longrightarrow> (\<forall>h\<in>set (id_win_hits (s_read st)). h \<in> H \<or> win h + lw \<le> n)))"

definition search_ok ::
  "nat \<Rightarrow> nat \<Rightarrow> bool \<Rightarrow> id_win set \<Rightarrow> bool \<Rightarrow> error + search_state \<Rightarrow> bool" where
  "search_ok n lw R H S res =
     (case res of Inr st \<Rightarrow> search_inv n lw R H st | Inl e \<Rightarrow> S \<longrightarrow> e \<noteq> SequenceIndexOutOfRange)"


text \<open>The two read-length statistics.\<close>

definition read_len_stats :: "Readstats \<Rightarrow> nat \<times> nat" where
  "read_len_stats stats = (min_read_len stats, max_read_len stats)"

subsection \<open>Sample inputs\<close>

text \<open>
  A six-nucleotide read against an index with half-windows of two nucleotides, a lookup table
  of \<open>4\<^sup>2\<close> entries and the strides 4, 2, 1. The sample traversal records one hit per call; the sample chainer never accepts
  (\<open>sample_externals\<close>) or accepts at once (\<open>accepting_externals\<close>).
\<close>

definition sample_externals :: externals where
  "sample_externals =
     \<lparr>init_win_f = (\<lambda>iseq p bv n. bv), init_win_r = (\<lambda>iseq p bv n. bv),
      traversetrie_align = (\<lambda>trie bv off a hits rid w pw. (False, hits @ [\<lparr>hit_id = trie, win = w\<rparr>])),
      compute_lis_alignment = (\<lambda>index r rs s m c. (r, rs, True, c))\<rparr>"

definition accepting_externals :: externals where
  "accepting_externals =
     sample_externals\<lparr>compute_lis_alignment := (\<lambda>index r rs s m c. (r\<lparr>hit := True\<rparr>, rs, False, c))\<rparr>"

definition sample_entry :: "nat \<Rightarrow> kmer_origin" where
  "sample_entry k = \<lparr>count = (if k = 11 then 0 else 1), trie_F = Some 7,
                     trie_R = (if k = 1 then None else Some 9)\<rparr>"

definition sample_nt_table :: "char list" where
  "sample_nt_table =
     (replicate 128 (CHR 0x04))
       [65 := CHR 0x00, 67 := CHR 0x01, 71 := CHR 0x02, 84 := CHR 0x03]"

definition sample_index :: Index where
  "sample_index =
     \<lparr>index_num = 0, part = 1, forward = True, match_score = 2,
      skiplengths = (\<lambda>n. [4, 2, 1]), lnwin = (\<lambda>n. 4), partialwin = (\<lambda>n. 2), numbvs = (\<lambda>n. 4),
      lookup_tbl = map sample_entry [0, 1, 2, 3, 4, 5, 6, 7, 8, 9, 10, 11, 12, 13, 14, 15]\<rparr>"

definition sample_read :: Read where
  "sample_read =
     \<lparr>id_read = 5, sequence = ''ACGTAC'', isequence = [0, 1, 2, 3, 0, 1], lastIndex = 0, lastPart = 0,
      num_alignments = 1, max_SW_score = 0, isValid = True, hit = False, hit_denovo = True,
      id_win_hits = [], readhit = 0, alignments = []\<rparr>"

definition short_read :: Read where
  "short_read = sample_read\<lparr>sequence := ''AC'', isequence := [0, 1], alignments := [30]\<rparr>"

definition sample_globals :: globals where
  "sample_globals = \<lparr>num_alignments_gv = 1, num_best_hits_gv = 0, min_lis_gv = 0, de_novo_otu_gv = True\<rparr>"

definition sample_stats :: Readstats where
  "sample_stats = \<lparr>min_read_len = 100, max_read_len = 0, total_reads_denovo_clustering = 0\<rparr>"

definition sample_job :: "Read \<Rightarrow> job_state" where
  "sample_job r = \<lparr>j_read = r, j_readstats = sample_stats, cout = []\<rparr>"

section \<open>Properties\<close>

subsection \<open>Evaluation of the model\<close>

lemma search_loop_numeral:
  "search_loop (numeral k) ext index st =
     (if search st then
        (if windowshift st = 0 then Some (Inl DivisionByZero)
         else
           (case window_loop ext index (numwin_of index st) 0 0 st of
              Inl e \<Rightarrow> Some (Inl e)
            | Inr st' \<Rightarrow> search_loop (pred_numeral k) ext index st'))
      else Some (Inr st))"
  by (simp add: numeral_eq_Suc)

lemmas run_simps =
  parallelTraversalJob_def early_termination_def update_read_len_def at_def initial_search_state_def
  search_loop_numeral window_loop.simps numwin_of_def u32_def u64_def window_body_def window_probe_def
  keyf_of_def keyr_of_def key_loop.simps subsearch_1a_def subsearch_1b_def associate_hits_def
  last_window_def next_pass_def skip_equal.simps after_search_def bit_vector_size_def offset_def
  minoccur_def

lemmas sample_defs =
  sample_externals_def accepting_externals_def sample_index_def sample_entry_def sample_read_def short_read_def
  sample_globals_def sample_stats_def sample_job_def

subsection \<open>\<^verbatim>\<open>format_forward\<close>\<close>

lemma format_forward_fasta_run:
  "\<forall>x\<in>set body. x \<noteq> CHR 0x00 \<and> x \<noteq> CHR ''>'' \<Longrightarrow> map (nt_lookup nt) body = map Some ys \<Longrightarrow>
   t = CHR 0x00 \<or> t = CHR ''>'' \<Longrightarrow>
   format_forward_fasta nt (body @ t # rest) acc = Inr (acc @ ys @ [CHR 0x0A])"
proof (induction body arbitrary: acc ys)
  case Nil
  then show ?case by auto
next
  case (Cons c body)
  have g: "fasta_guard c" by (auto simp: fasta_guard_def)
  from Cons.prems(1) have c: "c \<noteq> CHR 0x00 \<and> c \<noteq> CHR ''>''" by simp
  from Cons.prems(1) have rest: "\<forall>x\<in>set body. x \<noteq> CHR 0x00 \<and> x \<noteq> CHR ''>''" by simp
  from Cons.prems(2) obtain y ys' where ys: "ys = y # ys'" and y: "nt_lookup nt c = Some y"
    and m: "map (nt_lookup nt) body = map Some ys'"
    by (cases ys) auto
  show ?case
    using Cons.IH [OF rest m Cons.prems(3), of "acc @ [y]"] c g y by (simp add: ys)
qed

lemma nt_lookup_ascii:
  "of_char c < (128 :: nat) \<Longrightarrow> length nt = 128 \<Longrightarrow> nt_lookup nt c = Some (nt ! of_char c)"
  by (simp add: nt_lookup_def nt_index_def at_def)

lemma nt_lookup_high_byte: "(128 :: nat) \<le> of_char c \<Longrightarrow> nt_lookup nt c = None"
proof -
  assume h: "(128 :: nat) \<le> of_char c"
  have "(of_char c :: nat) mod 256 < 256" by simp
  then have "(of_char c :: nat) < 256" by (simp only: of_char_mod_256)
  then have "int (of_char c) < 256" by linarith
  moreover have "nt_index c = int (of_char c) - 256" using h by (simp add: nt_index_def)
  ultimately have "\<not> 0 \<le> nt_index c" by linarith
  then show ?thesis by (simp add: nt_lookup_def)
qed

text \<open>
  Claim C7. In the FASTA branch of \<^verbatim>\<open>format_forward\<close> the guard
  \<^verbatim>\<open>*read_seq != '\n' || *read_seq != '\r'\<close> is true of every byte; so the branch copies, after
  translation by \<^verbatim>\<open>nt_table\<close>, every byte of the input up to the first \<^verbatim>\<open>'\0'\<close> or \<^verbatim>\<open>'>'\<close>,
  newlines and carriage returns included, and closes the output with a newline. The bytes are
  those \<^verbatim>\<open>nt_table\<close> has an entry for: \<open>ys\<close> is the list of their translations.
\<close>

theorem format_forward_fasta_copies_every_byte:
  "(\<forall>c. fasta_guard c) \<and>
   ((\<forall>x\<in>set body. x \<noteq> CHR 0x00 \<and> x \<noteq> CHR ''>'') \<longrightarrow> map (nt_lookup nt_table) body = map Some ys \<longrightarrow>
    (t = CHR 0x00 \<or> t = CHR ''>'') \<longrightarrow>
      format_forward nt_table (body @ t # rest) (CHR ''>'') = Inr (ys @ [CHR 0x0A]))"
proof (intro conjI allI impI)
  fix c show "fasta_guard c" by (auto simp: fasta_guard_def)
next
  assume "\<forall>x\<in>set body. x \<noteq> CHR 0x00 \<and> x \<noteq> CHR ''>''" "map (nt_lookup nt_table) body = map Some ys"
    "t = CHR 0x00 \<or> t = CHR ''>''"
  then show "format_forward nt_table (body @ t # rest) (CHR ''>'') = Inr (ys @ [CHR 0x0A])"
    using format_forward_fasta_run [of body nt_table ys t rest "[]"] by (simp add: format_forward_def)
qed

theorem format_forward_fasta_copies_every_byte_witness:
  "fasta_guard (CHR 0x0A) \<and> fasta_guard (CHR 0x0D) \<and>
   map (nt_lookup sample_nt_table) [CHR ''A'', CHR 0x0A, CHR ''C'', CHR 0x0D]
     = map Some [CHR 0x00, CHR 0x04, CHR 0x01, CHR 0x04] \<and>
   format_forward sample_nt_table [CHR ''A'', CHR 0x0A, CHR ''C'', CHR 0x0D, CHR ''>'', CHR ''G''] (CHR ''>'')
     = Inr [CHR 0x00, CHR 0x04, CHR 0x01, CHR 0x04, CHR 0x0A]"
proof -
  have m: "map (nt_lookup sample_nt_table) [CHR ''A'', CHR 0x0A, CHR ''C'', CHR 0x0D]
     = map Some [CHR 0x00, CHR 0x04, CHR 0x01, CHR 0x04]"
    by (simp add: nt_lookup_def nt_index_def at_def sample_nt_table_def)
  from format_forward_fasta_copies_every_byte
    [of "[CHR ''A'', CHR 0x0A, CHR ''C'', CHR 0x0D]" sample_nt_table
        "[CHR 0x00, CHR 0x04, CHR 0x01, CHR 0x04]" "CHR ''>''" "[CHR ''G'']"] m
  show ?thesis by simp
qed

text \<open>
  A byte from \<open>0x80\<close> on is no index of the table: the branch stops there.
\<close>

lemma format_forward_high_byte:
  "format_forward sample_nt_table [CHR ''A'', CHR 0xE9, CHR ''>''] (CHR ''>'') = Inl NtTableIndexOutOfRange"
  by (simp add: format_forward_def fasta_guard_def nt_lookup_def nt_index_def at_def sample_nt_table_def)

subsection \<open>Half-window keys\<close>

lemma key_loop_eq:
  "g \<le> pw \<Longrightarrow> ptr + (pw - g) \<le> length iseq \<Longrightarrow>
   key_loop iseq pw g ptr key = Some (foldl shift_or key (take (pw - g) (drop ptr iseq)))"
proof (induction iseq pw g ptr key rule: key_loop.induct)
  case (1 iseq pw g ptr key)
  show ?case
  proof (cases "g < pw")
    case False
    with "1.prems" show ?thesis by (simp add: key_loop.simps)
  next
    case True
    with "1.prems" have lt: "ptr < length iseq" by simp
    then have a: "at iseq ptr = Some (iseq ! ptr)" by (simp add: at_def)
    have ih: "key_loop iseq pw (g + 1) (ptr + 1) (push_bit 2 key OR scast (iseq ! ptr)) =
        Some (foldl shift_or (push_bit 2 key OR scast (iseq ! ptr)) (take (pw - (g + 1)) (drop (ptr + 1) iseq)))"
      using "1.IH" [OF True a] True "1.prems" by simp
    have d: "drop ptr iseq = iseq ! ptr # drop (ptr + 1) iseq"
      using lt by (simp add: Cons_nth_drop_Suc)
    have s: "pw - g = Suc (pw - (g + 1))" using True by simp
    have t: "take (pw - g) (drop ptr iseq) = iseq ! ptr # take (pw - (g + 1)) (drop (ptr + 1) iseq)"
      by (subst d, subst s) simp
    show ?thesis
      using True a ih by (subst key_loop.simps) (simp add: t shift_or_def)
  qed
qed

lemma nucleotide_lt_4: "c \<le> (3 :: 8 word) \<Longrightarrow> c < 2 ^ 2"
  by (simp add: word_le_nat_alt word_less_nat_alt)

lemma nucleotide_bits: "c \<le> (3 :: 8 word) \<Longrightarrow> bit c m \<Longrightarrow> m < 2"
proof -
  assume c: "c \<le> 3" and b: "bit c m"
  from c have "c < 2 ^ 2" by (rule nucleotide_lt_4)
  then have "c AND mask 2 = c" by (rule less_mask_eq)
  with b have "bit (c AND mask 2) m" by simp
  then show "m < 2" by (simp add: bit_and_iff bit_mask_iff)
qed

lemma bit_scast_nucleotide:
  "c \<le> (3 :: 8 word) \<Longrightarrow> bit (scast c :: 32 word) n \<longleftrightarrow> n < 2 \<and> bit c n"
proof -
  assume c: "c \<le> 3"
  show ?thesis
  proof (cases "n < 2")
    case True
    then show ?thesis by (simp add: bit_signed_iff min_def)
  next
    case False
    then have "\<not> bit c (min 7 n)" using nucleotide_bits [OF c, of "min 7 n"] by auto
    with False show ?thesis by (simp add: bit_signed_iff)
  qed
qed

lemma bit_pack_spec:
  "\<forall>c\<in>set cs. c \<le> 3 \<Longrightarrow> length cs \<le> 16 \<Longrightarrow>
   bit (pack_spec cs) n \<longleftrightarrow> n < 2 * length cs \<and> bit (cs ! (length cs - 1 - n div 2)) (n mod 2)"
proof (induction cs arbitrary: n rule: rev_induct)
  case Nil
  then show ?case by (simp add: pack_spec_def)
next
  case (snoc c cs)
  have p: "pack_spec (cs @ [c]) = push_bit 2 (pack_spec cs) OR scast c"
    by (simp add: pack_spec_def shift_or_def)
  from snoc.prems have c3: "c \<le> 3" and all: "\<forall>c\<in>set cs. c \<le> 3" and len: "length cs \<le> 15" by auto
  have ih: "\<And>m. bit (pack_spec cs) m \<longleftrightarrow> m < 2 * length cs \<and> bit (cs ! (length cs - 1 - m div 2)) (m mod 2)"
    using snoc.IH [OF all] len by simp
  have b: "bit (pack_spec (cs @ [c])) n \<longleftrightarrow>
      (2 \<le> n \<and> n < 32 \<and> bit (pack_spec cs) (n - 2)) \<or> (n < 2 \<and> bit c n)"
    by (simp only: p bit_or_iff bit_push_bit_iff bit_scast_nucleotide [OF c3]) (auto simp: possible_bit_def)
  show ?case
  proof (cases "n < 2")
    case True
    then have "n div 2 = 0" "n mod 2 = n" by auto
    with True show ?thesis by (simp add: b)
  next
    case False
    then obtain n' where n': "n = n' + 2"
      by (metis add.commute le_Suc_ex not_less)
    have b': "bit (pack_spec (cs @ [c])) n \<longleftrightarrow> n < 32 \<and> bit (pack_spec cs) n'"
      unfolding b by (simp add: n')
    have d: "length cs - 1 - n' div 2 = length cs - n div 2" by (simp add: n')
    have m: "n' mod 2 = n mod 2" by (simp add: n')
    show ?thesis
    proof (cases "n' < 2 * length cs")
      case True
      then have "n' div 2 < length cs" by simp
      then have i: "length cs - n div 2 < length cs" by (simp add: n')
      have k: "n < 32" using True len by (simp add: n')
      have lhs: "bit (pack_spec (cs @ [c])) n \<longleftrightarrow> bit (cs ! (length cs - n div 2)) (n mod 2)"
        unfolding b' ih [of n'] d m using k True by blast
      have r: "(cs @ [c]) ! (length (cs @ [c]) - 1 - n div 2) = cs ! (length cs - n div 2)"
        using i by (simp add: nth_append)
      have t: "n < 2 * length (cs @ [c])" using True by (simp add: n')
      show ?thesis unfolding lhs r using t by blast
    next
      case False
      then have "\<not> bit (pack_spec (cs @ [c])) n" unfolding b' ih [of n'] by blast
      moreover have "\<not> n < 2 * length (cs @ [c])" using False by (simp add: n')
      ultimately show ?thesis by blast
    qed
  qed
qed

lemma field_pack_spec:
  assumes "\<forall>c\<in>set cs. c \<le> 3" "length cs \<le> 16" "i < length cs"
  shows "take_bit 2 (drop_bit (2 * (length cs - 1 - i)) (pack_spec cs)) = ucast (cs ! i)"
proof (rule bit_word_eqI)
  fix n assume "n < LENGTH(32)"
  have e: "(2 * (length cs - 1 - i) + n) div 2 = length cs - 1 - i" if "n < 2" using that by simp
  have f: "(2 * (length cs - 1 - i) + n) mod 2 = n" if "n < 2" using that by simp
  have g: "length cs - 1 - (length cs - 1 - i) = i" using assms(3) by simp
  have h: "2 * (length cs - 1 - i) + n < 2 * length cs" if "n < 2" using that assms(3) by simp
  show "bit (take_bit 2 (drop_bit (2 * (length cs - 1 - i)) (pack_spec cs))) n = bit (ucast (cs ! i) :: 32 word) n"
  proof (cases "n < 2")
    case True
    then show ?thesis
      using e f g h by (simp add: bit_take_bit_iff bit_drop_bit_eq bit_pack_spec [OF assms(1,2)] bit_unsigned_iff)
  next
    case False
    have "\<not> bit (cs ! i) n" using nucleotide_bits [of "cs ! i" n] assms(1,3) False by auto
    with False show ?thesis by (simp add: bit_take_bit_iff bit_unsigned_iff)
  qed
qed



text \<open>
  Claim C5. For every window inside the encoded sequence, \<^verbatim>\<open>keyf\<close> is the key of the
  \<^verbatim>\<open>partialwin\<close> characters starting at \<^verbatim>\<open>win_index\<close> and \<^verbatim>\<open>keyr\<close> the key of the \<^verbatim>\<open>partialwin\<close>
  characters starting at \<^verbatim>\<open>win_index + partialwin\<close>, each built by \<^verbatim>\<open>key = (key << 2) | c\<close> from 0
  over exactly these characters. The packing is most-significant first: for 2-bit characters
  that fit the 32-bit key, the \<open>i\<close>-th character is the two-bit field \<open>length - 1 - i\<close> of the key.
\<close>

theorem half_window_keys_packed_msb_first:
  assumes "pw = unat (partialwin index (index_num index))"
    and "win_index + 2 * pw \<le> length (isequence read)"
    and "length (isequence read) < 2 ^ 32"
  shows "keyf_of index read win_index = Some (pack_spec (take pw (drop win_index (isequence read))))
       \<and> keyr_of index read win_index = Some (pack_spec (take pw (drop (win_index + pw) (isequence read))))
       \<and> pack_spec [] = 0 \<and> pack_spec (cs @ [c]) = push_bit 2 (pack_spec cs) OR scast c
       \<and> ((\<forall>c\<in>set cs. c \<le> 3) \<longrightarrow> length cs \<le> 16 \<longrightarrow> i < length cs \<longrightarrow>
            take_bit 2 (drop_bit (2 * (length cs - 1 - i)) (pack_spec cs)) = ucast (cs ! i))"
proof -
  have f: "keyf_of index read win_index = Some (pack_spec (take pw (drop win_index (isequence read))))"
    using key_loop_eq [of 0 pw win_index "isequence read" 0] assms
    by (simp add: keyf_of_def pack_spec_def)
  have u: "u32 (win_index + pw) = win_index + pw"
    using assms by (simp add: u32_def)
  have r: "keyr_of index read win_index = Some (pack_spec (take pw (drop (win_index + pw) (isequence read))))"
    using key_loop_eq [of 0 pw "win_index + pw" "isequence read" 0] assms u
    by (simp add: keyr_of_def pack_spec_def)
  have p: "pack_spec [] = 0 \<and> pack_spec (cs @ [c]) = push_bit 2 (pack_spec cs) OR scast c"
    by (simp add: pack_spec_def shift_or_def)
  from f r p field_pack_spec [of cs i] show ?thesis by blast
qed

theorem half_window_keys_packed_msb_first_witness:
  "keyf_of sample_index sample_read 2 = Some 11 \<and> keyr_of sample_index sample_read 2 = Some 1
   \<and> pack_spec [2, 3] = 11
   \<and> take_bit 2 (drop_bit 2 (pack_spec [2, 3])) = (2 :: 32 word)
   \<and> take_bit 2 (drop_bit 0 (pack_spec [2, 3])) = (3 :: 32 word)"
proof -
  have "pack_spec [2, 3] = 11 \<and> pack_spec [0, 1] = 1"
    by (simp add: pack_spec_def shift_or_def)
  then show ?thesis
    using half_window_keys_packed_msb_first [of 2 sample_index 2 sample_read "[2, 3]" 0 0]
      half_window_keys_packed_msb_first [of 2 sample_index 2 sample_read "[2, 3]" 0 1]
    by (simp add: sample_index_def sample_read_def)
qed

subsection \<open>The two subsearches of a window\<close>





text \<open>
  The other two windows of the sample read: at offset 0 the count of the reverse key is 0, at
  offset 2 the count of the forward key is 0 and the reverse key has no trie. No hit of a
  skipped traversal is recorded.
\<close>

lemma sample_skipped_traversals:
  "window_probe sample_externals sample_index sample_read 0 =
     Inr \<lparr>accept_zero_kmer = False, id_hits = [\<lparr>hit_id = 7, win = 0\<rparr>]\<rparr>
   \<and> window_probe sample_externals sample_index sample_read 2 =
     Inr \<lparr>accept_zero_kmer = False, id_hits = []\<rparr>
   \<and> keyr_of sample_index sample_read 0 = Some 11
   \<and> at (lookup_tbl sample_index) 11 = Some \<lparr>count = 0, trie_F = Some 7, trie_R = Some 9\<rparr>
   \<and> keyf_of sample_index sample_read 2 = Some 11 \<and> keyr_of sample_index sample_read 2 = Some 1
   \<and> at (lookup_tbl sample_index) 1 = Some \<lparr>count = 1, trie_F = Some 7, trie_R = None\<rparr>"
  by (simp add: window_probe_def keyf_of_def keyr_of_def key_loop.simps at_def subsearch_1a_def
      subsearch_1b_def minoccur_def u32_def sample_externals_def sample_index_def sample_entry_def
      sample_read_def)

text \<open>A key outside the table: the encoded characters 4, 4 give the key 20 of a table of 16.\<close>

lemma lookup_outside_table:
  "window_probe sample_externals sample_index (sample_read\<lparr>isequence := [4, 4, 2, 3, 0, 1]\<rparr>) 0
     = Inl LookupIndexOutOfRange"
  by (simp add: window_probe_def keyf_of_def keyr_of_def key_loop.simps at_def subsearch_1a_def
      subsearch_1b_def minoccur_def u32_def sample_externals_def sample_index_def sample_entry_def
      sample_read_def)

subsection \<open>The returns before the search\<close>

lemma early_termination_bookkeeping:
  "early_termination g index (read\<lparr>lastIndex := a, lastPart := b\<rparr>) = early_termination g index read"
  by (simp add: early_termination_def)

lemma update_read_len_bookkeeping:
  "update_read_len (read\<lparr>lastIndex := a, lastPart := b\<rparr>) stats = update_read_len read stats"
  by (simp add: update_read_len_def)

lemma too_short_result:
  assumes "\<not> early_termination g index (j_read job)"
    and "length (sequence (j_read job)) < unat (lnwin index (index_num index))"
  shows "parallelTraversalJob fuel g ext index job =
           Some (Inr (job\<lparr>j_read := (j_read job)\<lparr>lastIndex := index_num index, lastPart := part index,
                                               isValid := False\<rparr>,
                           j_readstats := update_read_len (j_read job) (j_readstats job),
                           cout := cout job @ [Warning_read_too_short (id_read (j_read job))
                                                 (unat (lnwin index (index_num index)))]\<rparr>))"
  using assms
  by (simp add: parallelTraversalJob_def early_termination_bookkeeping update_read_len_bookkeeping Let_def)

text \<open>
  The two returns for reverse reads as the code makes them: on a countdown below zero under a
  positive \<^verbatim>\<open>num_alignments_gv\<close>, and otherwise on \<^verbatim>\<open>num_best_hits_gv > 0\<close>, \<^verbatim>\<open>min_lis_gv > 0\<close> and
  \<^verbatim>\<open>read.max_SW_score == num_best_hits_gv\<close>. Only \<^verbatim>\<open>lastIndex\<close> and \<^verbatim>\<open>lastPart\<close> have been written.
\<close>

lemma reverse_strand_returns:
  assumes "\<not> forward index"
    and "0 < num_alignments_gv g \<and> num_alignments (j_read job) < 0
         \<or> num_alignments_gv g \<le> 0 \<and> 0 < num_best_hits_gv g \<and> 0 < min_lis_gv g
            \<and> int (max_SW_score (j_read job)) = num_best_hits_gv g"
  shows "parallelTraversalJob fuel g ext index job =
           Some (Inr (job\<lparr>j_read := (j_read job)\<lparr>lastIndex := index_num index, lastPart := part index\<rparr>\<rparr>))"
proof -
  from assms have "early_termination g index (j_read job)"
    by (auto simp: early_termination_def)
  then show ?thesis
    by (simp add: parallelTraversalJob_def early_termination_bookkeeping)
qed

lemma reverse_strand_returns_sample:
  "parallelTraversalJob 0 sample_globals sample_externals (sample_index\<lparr>forward := False\<rparr>)
     (sample_job (sample_read\<lparr>num_alignments := - 1\<rparr>))
   = Some (Inr (sample_job (sample_read\<lparr>num_alignments := - 1, lastIndex := 0, lastPart := 1\<rparr>)))
   \<and> parallelTraversalJob 0 (sample_globals\<lparr>num_alignments_gv := 0, num_best_hits_gv := 3, min_lis_gv := 2\<rparr>)
        sample_externals (sample_index\<lparr>forward := False\<rparr>) (sample_job (sample_read\<lparr>max_SW_score := 3\<rparr>))
   = Some (Inr (sample_job (sample_read\<lparr>max_SW_score := 3, lastIndex := 0, lastPart := 1\<rparr>)))"
  using reverse_strand_returns [of "sample_index\<lparr>forward := False\<rparr>" sample_globals
      "sample_job (sample_read\<lparr>num_alignments := - 1\<rparr>)" 0 sample_externals]
    reverse_strand_returns [of "sample_index\<lparr>forward := False\<rparr>"
      "sample_globals\<lparr>num_alignments_gv := 0, num_best_hits_gv := 3, min_lis_gv := 2\<rparr>"
      "sample_job (sample_read\<lparr>max_SW_score := 3\<rparr>)" 0 sample_externals]
  by (simp add: sample_index_def sample_globals_def sample_job_def sample_read_def)

text \<open>
  Claim C1. On the reverse strand, under a positive \<^verbatim>\<open>num_alignments_gv\<close>, a read whose
  countdown \<^verbatim>\<open>read.num_alignments\<close> has reached zero should make the callback return at once,
  without searching: the comment on the test reads
  \<^verbatim>\<open>all num_alignments_gv alignments have been output\<close>. The test is \<^verbatim>\<open>read.num_alignments < 0\<close>, and the callback does not return: with
  \<^verbatim>\<open>num_alignments_gv = 1\<close> and \<^verbatim>\<open>read.num_alignments = 0\<close> on the reverse strand it updates the
  read-length statistics, searches the three passes, adds three seed hits and clears
  \<^verbatim>\<open>hit_denovo\<close>; the result is not the read with only \<^verbatim>\<open>lastIndex\<close> and \<^verbatim>\<open>lastPart\<close> written.
\<close>

theorem early_termination_misses_zero_countdown:
  "\<not> forward (sample_index\<lparr>forward := False\<rparr>) \<and> 0 < num_alignments_gv sample_globals
   \<and> num_alignments (j_read (sample_job (sample_read\<lparr>num_alignments := 0\<rparr>))) = 0
   \<and> \<not> early_termination sample_globals (sample_index\<lparr>forward := False\<rparr>)
         (j_read (sample_job (sample_read\<lparr>num_alignments := 0\<rparr>)))
   \<and> parallelTraversalJob 4 sample_globals sample_externals (sample_index\<lparr>forward := False\<rparr>)
        (sample_job (sample_read\<lparr>num_alignments := 0\<rparr>))
      = Some (Inr \<lparr>j_read = sample_read\<lparr>num_alignments := 0, lastPart := 1, hit_denovo := False,
                       readhit := 2,
                       id_win_hits := [\<lparr>hit_id = 7, win = 0\<rparr>, \<lparr>hit_id = 7, win = 1\<rparr>,
                                       \<lparr>hit_id = 9, win = 1\<rparr>]\<rparr>,
                    j_readstats = sample_stats\<lparr>min_read_len := 6, max_read_len := 6\<rparr>,
                    cout = []\<rparr>)
   \<and> parallelTraversalJob 4 sample_globals sample_externals (sample_index\<lparr>forward := False\<rparr>)
        (sample_job (sample_read\<lparr>num_alignments := 0\<rparr>))
      \<noteq> Some (Inr (sample_job (sample_read\<lparr>num_alignments := 0, lastIndex := 0, lastPart := 1\<rparr>)))"
  by (simp add: run_simps sample_defs)

text \<open>
  Claim C2, as amended. For every read shorter than \<^verbatim>\<open>lnwin\<close> of the current index that the
  reverse-strand check does not skip, the callback returns normally, without searching (no seed
  hit is added, whatever the fuel and the externals): the read has \<^verbatim>\<open>isValid = false\<close>, its
  alignments are those it had on entry (none if it had none), and one warning naming the read
  and \<^verbatim>\<open>lnwin\<close> is written.
\<close>

theorem too_short_read_is_rejected:
  assumes "\<not> early_termination g index (j_read job)"
    and "length (sequence (j_read job)) < unat (lnwin index (index_num index))"
  shows "\<exists>job'. parallelTraversalJob fuel g ext index job = Some (Inr job')
       \<and> \<not> isValid (j_read job')
       \<and> alignments (j_read job') = alignments (j_read job)
       \<and> (alignments (j_read job) = [] \<longrightarrow> alignments (j_read job') = [])
       \<and> id_win_hits (j_read job') = id_win_hits (j_read job)
       \<and> readhit (j_read job') = readhit (j_read job)
       \<and> cout job' = cout job @ [Warning_read_too_short (id_read (j_read job))
                                    (unat (lnwin index (index_num index)))]"
  using too_short_result [OF assms, of fuel ext] by simp

theorem too_short_read_is_rejected_witness:
  "parallelTraversalJob 4 sample_globals sample_externals sample_index (sample_job (short_read\<lparr>alignments := []\<rparr>))
     = Some (Inr \<lparr>j_read = short_read\<lparr>alignments := [], lastIndex := 0, lastPart := 1, isValid := False\<rparr>,
                   j_readstats = sample_stats\<lparr>min_read_len := 2, max_read_len := 2\<rparr>,
                   cout = [Warning_read_too_short 5 4]\<rparr>)
   \<and> \<not> early_termination sample_globals sample_index (short_read\<lparr>alignments := []\<rparr>)
   \<and> length (sequence (short_read\<lparr>alignments := []\<rparr>)) < unat (lnwin sample_index (index_num sample_index))"
  using too_short_read_is_rejected [of sample_globals sample_index
      "sample_job (short_read\<lparr>alignments := []\<rparr>)" 4 sample_externals]
  by (simp add: run_simps sample_defs)

text \<open>
  The claim as stated fails twice. A short read that the reverse-strand check skips keeps
  \<^verbatim>\<open>isValid = true\<close> and no warning is written; and a short read that enters with an alignment
  (accepted against an index with a shorter window) leaves with it.
\<close>

theorem too_short_read_counterexample:
  "length (sequence short_read) < unat (lnwin sample_index (index_num sample_index))
   \<and> parallelTraversalJob 4 sample_globals sample_externals (sample_index\<lparr>forward := False\<rparr>)
        (sample_job (short_read\<lparr>num_alignments := - 1\<rparr>))
      = Some (Inr (sample_job (short_read\<lparr>num_alignments := - 1, lastIndex := 0, lastPart := 1\<rparr>)))
   \<and> isValid (short_read\<lparr>num_alignments := - 1, lastIndex := 0, lastPart := 1\<rparr>)
   \<and> alignments (short_read\<lparr>num_alignments := - 1, lastIndex := 0, lastPart := 1\<rparr>) = [30]
   \<and> cout (sample_job (short_read\<lparr>num_alignments := - 1, lastIndex := 0, lastPart := 1\<rparr>)) = []
   \<and> parallelTraversalJob 4 sample_globals sample_externals sample_index (sample_job short_read)
      = Some (Inr \<lparr>j_read = short_read\<lparr>lastIndex := 0, lastPart := 1, isValid := False\<rparr>,
                    j_readstats = sample_stats\<lparr>min_read_len := 2, max_read_len := 2\<rparr>,
                    cout = [Warning_read_too_short 5 4]\<rparr>)
   \<and> alignments (short_read\<lparr>lastIndex := 0, lastPart := 1, isValid := False\<rparr>) = [30]"
  by (simp add: run_simps sample_defs)

subsection \<open>The skip over equal strides\<close>

text \<open>
  Claim C9. The guard of the skip-ahead loop should read \<^verbatim>\<open>skiplengths\<close> at the indices 0 to 2
  only. It does not: with the strides 1, 5, 5 and a chainer that never accepts, the guard
  entered with \<^verbatim>\<open>pass_n = 1\<close> finds the strides 1 and 2 equal, advances to \<^verbatim>\<open>pass_n = 2\<close>, passes
  the test \<^verbatim>\<open>pass_n < 3\<close> and reads the stride at index 3, outside the three-element vector.
\<close>

theorem skip_equal_reads_fourth_stride:
  "skip_equal [1, 5, 5] 1 = Inl StrideIndexOutOfRange \<and>
   parallelTraversalJob 4 sample_globals sample_externals
     (sample_index\<lparr>skiplengths := (\<lambda>n. [1, 5, 5])\<rparr>) (sample_job sample_read)
   = Some (Inl StrideIndexOutOfRange)"
  by (simp add: run_simps sample_defs)

subsection \<open>Effects of one window and of the last-window block\<close>

lemma associate_hits_sequence [simp]:
  "sequence (associate_hits s r) = sequence r" "isequence (associate_hits s r) = isequence r"
  by (simp_all add: associate_hits_def)

lemma window_body_frame:
  assumes "window_body ext index w st = Inr st'"
  shows "windowshift st' = windowshift st" "pass_n st' = pass_n st" "search st' = search st"
    "s_readstats st' = s_readstats st" "read_to_count st' = read_to_count st"
    "max_SW_score_local st' = max_SW_score_local st"
    "sequence (s_read st') = sequence (s_read st)" "isequence (s_read st') = isequence (s_read st)"
    "length (read_index_hits st') = length (read_index_hits st)"
  using assms
  by (auto simp: window_body_def split: option.splits bool.splits sum.splits)

lemma list_update_True: "w < length hits \<Longrightarrow> hits ! w \<Longrightarrow> hits[w := True] = hits"
  by (metis (full_types) list_update_id)

lemma window_body_bits:
  assumes "window_body ext index w st = Inr st'"
  shows "w < length (read_index_hits st) \<and> read_index_hits st' = (read_index_hits st)[w := True]"
  using assms
  by (auto simp: window_body_def at_def list_update_True split: option.splits bool.splits sum.splits if_splits)

lemma unat_stride_bound: "unat (w :: 32 word) < 4294967296"
  using unsigned_less [of w, where ?'a = nat] by simp

lemma unat_stride_pow: "unat (w :: 32 word) < 2 ^ 32"
  using unat_stride_bound [of w] by simp

lemma windows_in_bounds_update:
  assumes "windows_in_bounds n lw hits" "w + lw \<le> n"
  shows "windows_in_bounds n lw (hits[w := True])"
  unfolding windows_in_bounds_def
proof (intro allI impI)
  fix i assume i: "i < length (hits[w := True])" and b: "hits[w := True] ! i"
  show "i + lw \<le> n"
  proof (cases "i = w")
    case True
    with assms(2) show ?thesis by simp
  next
    case False
    with i b have "hits ! i" by simp
    with assms(1) i show ?thesis by (simp add: windows_in_bounds_def)
  qed
qed

lemma next_pass_frame:
  assumes "next_pass index st = Inr st'"
  shows "s_read st' = s_read st" "s_readstats st' = s_readstats st"
    "read_index_hits st' = read_index_hits st" "windowshift st' < 2 ^ 32 \<or> windowshift st' = windowshift st"
  using assms
  by (auto simp: next_pass_def unat_stride_bound split: if_splits sum.splits option.splits)

lemma last_window_frame:
  assumes "last_window ext index st = Inr st'"
  shows "read_index_hits st' = read_index_hits st"
    "s_read st' = fst (compute_lis_alignment ext index (s_read st) (s_readstats st) (search st)
                        (max_SW_score_local st) (read_to_count st))"
    "windowshift st' < 2 ^ 32 \<or> windowshift st' = windowshift st"
  using assms
  by (auto simp: last_window_def Let_def split: prod.splits if_splits dest: next_pass_frame)

lemma subsearch_1a_hits:
  "hits_record_window ext index \<Longrightarrow> subsearch_1a ext index read w keyf = Inr s \<Longrightarrow>
   h \<in> set (id_hits s) \<Longrightarrow> win h = w"
  by (auto simp: subsearch_1a_def hits_record_window_def Let_def split: option.splits prod.splits if_splits)
     (metis empty_iff empty_set snd_conv)

lemma subsearch_1b_hits:
  "hits_record_window ext index \<Longrightarrow> subsearch_1b ext index read w keyr s = Inr s' \<Longrightarrow>
   h \<in> set (id_hits s') \<Longrightarrow> h \<in> set (id_hits s) \<or> win h = w"
  by (auto simp: subsearch_1b_def hits_record_window_def Let_def split: option.splits prod.splits if_splits)
     (metis snd_conv)

lemma subsearch_error:
  "subsearch_1a ext index read w keyf = Inl e \<Longrightarrow> e = LookupIndexOutOfRange"
  "subsearch_1b ext index read w keyr s = Inl e \<Longrightarrow> e = LookupIndexOutOfRange"
  by (auto simp: subsearch_1a_def subsearch_1b_def Let_def split: option.splits prod.splits if_splits)

lemma window_probe_hits:
  assumes "hits_record_window ext index" "window_probe ext index read w = Inr s" "h \<in> set (id_hits s)"
  shows "win h = w"
proof -
  from assms(2) obtain keyf a where kf: "keyf_of index read w = Some keyf"
    and a: "subsearch_1a ext index read w keyf = Inr a"
    by (auto simp: window_probe_def split: option.splits sum.splits)
  show ?thesis
  proof (cases "accept_zero_kmer a")
    case True
    with assms(2) kf a have "s = a" by (simp add: window_probe_def)
    with assms(3) subsearch_1a_hits [OF assms(1) a] show ?thesis by blast
  next
    case False
    with assms(2) kf a obtain keyr where "subsearch_1b ext index read w keyr a = Inr s"
      by (auto simp: window_probe_def split: option.splits)
    with assms(3) subsearch_1a_hits [OF assms(1) a] subsearch_1b_hits [OF assms(1)]
    show ?thesis by blast
  qed
qed

lemma window_body_hits:
  assumes "hits_record_window ext index" "window_body ext index w st = Inr st'"
    "h \<in> set (id_win_hits (s_read st'))"
  shows "h \<in> set (id_win_hits (s_read st)) \<or> win h = w"
  using assms window_probe_hits [OF assms(1)]
  by (auto simp: window_body_def associate_hits_def split: option.splits bool.splits sum.splits if_splits)

subsection \<open>Windows stay inside the read\<close>

lemma numwin_last_window:
  assumes "lw \<le> n" "n < 2 ^ 63" "ws < 2 ^ 32" "0 < ws"
  shows "(u32 (u64 (u64 (n + 2 ^ 64 - lw) + ws) div ws) - 1) * ws + lw \<le> n"
proof -
  have a: "n + 2 ^ 64 - lw = (n - lw) + 2 ^ 64" using assms(1) by simp
  have b: "n - lw < (2 :: nat) ^ 64" using assms(2) by simp
  have c: "u64 (n + 2 ^ 64 - lw) = n - lw" unfolding a u64_def using b by simp
  have d: "n - lw + ws < (2 :: nat) ^ 64" using assms(2,3) by simp
  have e: "u64 (n - lw + ws) = n - lw + ws" unfolding u64_def using d by simp
  have q: "(n - lw + ws) div ws = (n - lw) div ws + 1"
    using assms(4) div_add_self2 [of ws "n - lw"] by simp
  have "u32 ((n - lw) div ws + 1) \<le> (n - lw) div ws + 1" by (simp add: u32_def)
  then have "u32 ((n - lw) div ws + 1) - 1 \<le> (n - lw) div ws" by simp
  then have "(u32 ((n - lw) div ws + 1) - 1) * ws \<le> (n - lw) div ws * ws" by (rule mult_le_mono1)
  also have "\<dots> \<le> n - lw" by simp
  finally have fin: "(u32 ((n - lw) div ws + 1) - 1) * ws \<le> n - lw" .
  show ?thesis unfolding c e q using fin assms(1) by linarith
qed

lemma window_keys:
  assumes "w + 2 * unat (partialwin index (index_num index)) \<le> length (isequence r)"
    and "length (isequence r) < 2 ^ 32"
  shows "keyf_of index r w =
           Some (pack_spec (take (unat (partialwin index (index_num index))) (drop w (isequence r))))"
    and "keyr_of index r w =
           Some (pack_spec (take (unat (partialwin index (index_num index)))
                   (drop (w + unat (partialwin index (index_num index))) (isequence r))))"
proof -
  let ?pw = "unat (partialwin index (index_num index))"
  show "keyf_of index r w = Some (pack_spec (take ?pw (drop w (isequence r))))"
    using key_loop_eq [of 0 ?pw w "isequence r" 0] assms by (simp add: keyf_of_def pack_spec_def)
  have u: "u32 (w + ?pw) = w + ?pw" using assms by (simp add: u32_def)
  show "keyr_of index r w = Some (pack_spec (take ?pw (drop (w + ?pw) (isequence r))))"
    using key_loop_eq [of 0 ?pw "w + ?pw" "isequence r" 0] assms u by (simp add: keyr_of_def pack_spec_def)
qed

lemma window_probe_error:
  assumes "w + 2 * unat (partialwin index (index_num index)) \<le> length (isequence r)"
    and "length (isequence r) < 2 ^ 32"
  shows "window_probe ext index r w \<noteq> Inl SequenceIndexOutOfRange"
  by (auto simp: window_probe_def window_keys [OF assms] split: sum.splits if_splits
      dest: subsearch_error)

lemma window_body_error:
  assumes "window_body ext index w st = Inl e" "e = SequenceIndexOutOfRange"
  shows "window_probe ext index (s_read st) w = Inl SequenceIndexOutOfRange"
  using assms by (auto simp: window_body_def split: option.splits bool.splits sum.splits)

lemma window_body_ok:
  assumes inv: "search_inv n lw R H st" and w: "w + lw \<le> n"
    and R: "R \<longrightarrow> hits_record_window ext index"
    and S: "S \<longrightarrow> lw = 2 * unat (partialwin index (index_num index)) \<and> n < 2 ^ 32"
  shows "search_ok n lw R H S (window_body ext index w st)"
proof (cases "window_body ext index w st")
  case (Inl e)
  have "e \<noteq> SequenceIndexOutOfRange" if S
  proof
    assume "e = SequenceIndexOutOfRange"
    from window_body_error [OF Inl this]
    have "window_probe ext index (s_read st) w = Inl SequenceIndexOutOfRange" .
    moreover have "window_probe ext index (s_read st) w \<noteq> Inl SequenceIndexOutOfRange"
      using window_probe_error [of w index "s_read st" ext] S that inv w
      by (simp add: search_inv_def)
    ultimately show False by simp
  qed
  with Inl show ?thesis by (simp add: search_ok_def)
next
  case (Inr st1)
  have h: "\<forall>h\<in>set (id_win_hits (s_read st1)). h \<in> H \<or> win h + lw \<le> n" if R
  proof
    fix h assume "h \<in> set (id_win_hits (s_read st1))"
    with window_body_hits [of ext index w st st1 h] R that Inr
    have "h \<in> set (id_win_hits (s_read st)) \<or> win h = w" by blast
    with inv that w show "h \<in> H \<or> win h + lw \<le> n" by (auto simp: search_inv_def)
  qed
  have "search_inv n lw R H st1"
    using inv window_body_frame [OF Inr] window_body_bits [OF Inr] w h
    by (simp add: search_inv_def windows_in_bounds_update)
  with Inr show ?thesis by (simp add: search_ok_def)
qed

lemma next_pass_error: "next_pass index st = Inl e \<Longrightarrow> e = StrideIndexOutOfRange"
proof -
  have s: "skip_equal sk p = Inl e \<Longrightarrow> e = StrideIndexOutOfRange" for sk p
    by (induction sk p rule: skip_equal.induct)
       (subst (asm) skip_equal.simps, auto split: if_splits option.splits)
  show "next_pass index st = Inl e \<Longrightarrow> e = StrideIndexOutOfRange"
    using s by (auto simp: next_pass_def split: if_splits sum.splits option.splits)
qed

lemma last_window_ok:
  assumes inv: "search_inv n lw R H st"
    and k: "chainer_keeps_sequence ext index"
    and R: "R \<longrightarrow> hits_record_window ext index"
  shows "search_ok n lw R H S (last_window ext index st)"
proof (cases "last_window ext index st")
  case (Inl e)
  then have "e = StrideIndexOutOfRange"
    by (auto simp: last_window_def Let_def split: prod.splits if_splits dest: next_pass_error)
  with Inl show ?thesis by (simp add: search_ok_def)
next
  case (Inr st')
  note f = last_window_frame [OF Inr]
  have "\<forall>h\<in>set (id_win_hits (s_read st')). h \<in> H \<or> win h + lw \<le> n" if R
    using that R inv f(2) by (auto simp: search_inv_def hits_record_window_def)
  then have "search_inv n lw R H st'"
    using inv k f by (auto simp: search_inv_def chainer_keeps_sequence_def)
  with Inr show ?thesis by (simp add: search_ok_def)
qed

lemma window_loop_ok:
  "chainer_keeps_sequence ext index \<Longrightarrow> R \<longrightarrow> hits_record_window ext index \<Longrightarrow>
   S \<longrightarrow> lw = 2 * unat (partialwin index (index_num index)) \<and> n < 2 ^ 32 \<Longrightarrow>
   search_inv n lw R H st \<Longrightarrow>
   win_index \<le> win_num * windowshift st \<Longrightarrow> (numwin - 1) * windowshift st + lw \<le> n \<Longrightarrow>
   search_ok n lw R H S (window_loop ext index numwin win_num win_index st)"
proof (induction ext index numwin win_num win_index st rule: window_loop.induct)
  case (1 ext index numwin win_num win_index st)
  note k = "1.prems"(1) and R = "1.prems"(2) and S = "1.prems"(3) and inv = "1.prems"(4)
    and wi = "1.prems"(5) and nb = "1.prems"(6)
  show ?case
  proof (cases "win_num < numwin")
    case False
    with inv show ?thesis by (simp add: window_loop.simps search_ok_def)
  next
    case True
    then have "win_num * windowshift st \<le> (numwin - 1) * windowshift st"
      by (intro mult_le_mono1) simp
    with wi nb have w: "win_index + lw \<le> n" by linarith
    note body = window_body_ok [OF inv w R S]
    show ?thesis
    proof (cases "window_body ext index win_index st")
      case (Inl e)
      with body True show ?thesis by (subst window_loop.simps) (simp add: search_ok_def)
    next
      case (Inr st1)
      with body have inv1: "search_inv n lw R H st1" by (simp add: search_ok_def)
      show ?thesis
      proof (cases "win_num = numwin - 1")
        case True
        with \<open>win_num < numwin\<close> Inr last_window_ok [OF inv1 k R, of S]
        show ?thesis by (subst window_loop.simps) simp
      next
        case False
        have ws: "windowshift st1 = windowshift st" using window_body_frame [OF Inr] by simp
        have "u32 (win_index + windowshift st1) \<le> win_index + windowshift st1" by (simp add: u32_def)
        also have "\<dots> \<le> (win_num + 1) * windowshift st1" using wi ws by simp
        finally have i: "u32 (win_index + windowshift st1) \<le> (win_num + 1) * windowshift st1" .
        have nb1: "(numwin - 1) * windowshift st1 + lw \<le> n" using nb ws by simp
        from "1.IH" [OF \<open>win_num < numwin\<close> Inr False k R S inv1 i nb1]
        show ?thesis using \<open>win_num < numwin\<close> Inr False by (subst window_loop.simps) simp
      qed
    qed
  qed
qed

lemma search_loop_ok:
  assumes k: "chainer_keeps_sequence ext index" and R: "R \<longrightarrow> hits_record_window ext index"
    and S: "S \<longrightarrow> lw = 2 * unat (partialwin index (index_num index)) \<and> n < 2 ^ 32"
    and lw: "lw = unat (lnwin index (index_num index))" "lw \<le> n" "n < 2 ^ 63"
  shows "search_inv n lw R H st \<Longrightarrow> search_loop fuel ext index st = Some res \<Longrightarrow> search_ok n lw R H S res"
proof (induction fuel arbitrary: st)
  case 0
  then show ?case by simp
next
  case (Suc fuel)
  show ?case
  proof (cases "search st")
    case False
    with Suc.prems show ?thesis by (auto simp: search_ok_def)
  next
    case True
    show ?thesis
    proof (cases "windowshift st = 0")
      case True
      with Suc.prems(2) \<open>search st\<close> show ?thesis by (auto simp: search_ok_def)
    next
      case False
      have b: "(numwin_of index st - 1) * windowshift st + lw \<le> n"
        using numwin_last_window [of lw n "windowshift st"] lw Suc.prems(1) False
        by (simp add: numwin_of_def search_inv_def)
      have ok: "search_ok n lw R H S (window_loop ext index (numwin_of index st) 0 0 st)"
        using window_loop_ok [OF k R S Suc.prems(1) _ b] by simp
      show ?thesis
      proof (cases "window_loop ext index (numwin_of index st) 0 0 st")
        case (Inl e)
        with Suc.prems(2) \<open>search st\<close> False ok show ?thesis by (auto simp: search_ok_def)
      next
        case (Inr st1)
        with ok have "search_inv n lw R H st1" by (simp add: search_ok_def)
        moreover from Suc.prems(2) \<open>search st\<close> False Inr
        have "search_loop fuel ext index st1 = Some res" by simp
        ultimately show ?thesis using Suc.IH by blast
      qed
    qed
  qed
qed

lemma initial_search_inv:
  assumes "length (isequence read) = length (sequence read)"
  shows "search_inv (length (sequence read)) lw R (set (id_win_hits read))
           (initial_search_state index read stats w)"
  using assms by (simp add: search_inv_def initial_search_state_def windows_in_bounds_def unat_stride_bound)

lemma sample_keeps_sequence: "chainer_keeps_sequence sample_externals sample_index"
  by (simp add: chainer_keeps_sequence_def sample_externals_def)

lemma sample_records_window: "hits_record_window sample_externals sample_index"
  by (auto simp: hits_record_window_def sample_externals_def)

lemma sample_search_run:
  "search_loop 4 sample_externals sample_index (initial_search_state sample_index sample_read sample_stats 4)
   = Some (Inr \<lparr>s_read = sample_read\<lparr>id_win_hits := [\<lparr>hit_id = 7, win = 0\<rparr>, \<lparr>hit_id = 7, win = 1\<rparr>,
                                                         \<lparr>hit_id = 9, win = 1\<rparr>], readhit := 2\<rparr>,
                 s_readstats = sample_stats,
                 read_index_hits = [True, True, True, False, False, False],
                 windowshift = 1, pass_n = 2, search = False, read_to_count = True,
                 max_SW_score_local = 12\<rparr>)"
  by (simp add: run_simps sample_defs)

text \<open>
  Claim C3. Take a read at least \<^verbatim>\<open>lnwin\<close> long whose encoded sequence is as long as its
  sequence, any strides, and a chainer that leaves the nucleotides alone. Whenever the search
  loop returns, every window offset it has probed (every offset marked in \<^verbatim>\<open>read_index_hits\<close>)
  satisfies \<^verbatim>\<open>win_index + lnwin \<le> |encoded|\<close>; if the traversal records its hits under the offset
  it is given and the chainer adds none, so does every seed hit added to \<^verbatim>\<open>id_win_hits\<close>; and
  with \<^verbatim>\<open>lnwin = 2 * partialwin\<close> the loop never ends in a read outside the encoded sequence. In
  particular \<^verbatim>\<open>numwin = (len - lnwin + windowshift) / windowshift\<close> keeps the last window in
  bounds: \<^verbatim>\<open>(numwin - 1) * windowshift + lnwin \<le> len\<close>.
\<close>

theorem probed_windows_in_bounds:
  assumes lw: "lw = unat (lnwin index (index_num index))"
    and len: "lw \<le> length (sequence read)" "length (sequence read) < 2 ^ 63"
      "length (isequence read) = length (sequence read)"
    and k: "chainer_keeps_sequence ext index"
    and run: "search_loop fuel ext index (initial_search_state index read stats w) = Some res"
  shows "(case res of
            Inr st \<Rightarrow>
              length (isequence (s_read st)) = length (isequence read)
              \<and> (\<forall>i<length (read_index_hits st). read_index_hits st ! i \<longrightarrow> i + lw \<le> length (isequence (s_read st)))
              \<and> (hits_record_window ext index \<longrightarrow>
                   (\<forall>h\<in>set (id_win_hits (s_read st)).
                      h \<in> set (id_win_hits read) \<or> win h + lw \<le> length (isequence (s_read st))))
          | Inl e \<Rightarrow>
              lw = 2 * unat (partialwin index (index_num index)) \<and> length (sequence read) < 2 ^ 32
              \<longrightarrow> e \<noteq> SequenceIndexOutOfRange)
       \<and> (0 < unat w \<longrightarrow>
            (numwin_of index (initial_search_state index read stats w) - 1) * unat w + lw
              \<le> length (isequence read))"
proof -
  let ?n = "length (sequence read)"
  let ?R = "hits_record_window ext index"
  let ?S = "lw = 2 * unat (partialwin index (index_num index)) \<and> ?n < 2 ^ 32"
  have ok: "search_ok ?n lw ?R (set (id_win_hits read)) ?S res"
    using search_loop_ok [OF k _ _ lw len(1,2) initial_search_inv [OF len(3)] run, of ?R ?S] by simp
  have nw: "(numwin_of index (initial_search_state index read stats w) - 1) * unat w + lw
              \<le> length (isequence read)" if "0 < unat w"
    using numwin_last_window [OF len(1,2) unat_stride_pow that] len(3)
    by (simp add: numwin_of_def initial_search_state_def lw)
  show ?thesis
  proof (cases res)
    case (Inl e)
    with ok nw show ?thesis by (simp add: search_ok_def)
  next
    case (Inr st)
    with ok have inv: "search_inv ?n lw ?R (set (id_win_hits read)) st" by (simp add: search_ok_def)
    then have l: "length (isequence (s_read st)) = length (isequence read)"
      using len(3) by (simp add: search_inv_def)
    from inv have b: "\<forall>i<length (read_index_hits st). read_index_hits st ! i \<longrightarrow>
        i + lw \<le> length (isequence (s_read st))"
      by (simp add: search_inv_def windows_in_bounds_def)
    from inv have h: "?R \<longrightarrow> (\<forall>h\<in>set (id_win_hits (s_read st)).
        h \<in> set (id_win_hits read) \<or> win h + lw \<le> length (isequence (s_read st)))"
      by (simp add: search_inv_def)
    from Inr l b h nw show ?thesis by simp
  qed
qed

theorem probed_windows_in_bounds_witness:
  "map_option (map_sum id read_index_hits)
     (search_loop 4 sample_externals sample_index
        (initial_search_state sample_index sample_read sample_stats 4))
   = Some (Inr [True, True, True, False, False, False])
   \<and> map_option (map_sum id (\<lambda>st. map win (id_win_hits (s_read st))))
     (search_loop 4 sample_externals sample_index
        (initial_search_state sample_index sample_read sample_stats 4))
   = Some (Inr [0, 1, 1])
   \<and> unat (lnwin sample_index (index_num sample_index)) = 4 \<and> length (isequence sample_read) = 6
   \<and> numwin_of sample_index (initial_search_state sample_index sample_read sample_stats 4) = 1"
proof -
  have n: "numwin_of sample_index (initial_search_state sample_index sample_read sample_stats 4) = 1"
    by (simp add: run_simps sample_defs)
  have l: "unat (lnwin sample_index (index_num sample_index)) = 4 \<and> length (isequence sample_read) = 6
    \<and> length (sequence sample_read) = 6"
    by (simp add: sample_defs)
  from probed_windows_in_bounds [where lw = 4, OF _ _ _ _ sample_keeps_sequence sample_search_run]
    sample_search_run n l sample_records_window
  show ?thesis by simp
qed

subsection \<open>The passes end\<close>















text \<open>
  The fuel is not idle: a pass without windows (\<^verbatim>\<open>numwin = 0\<close>, which needs a truncated quotient)
  leaves every variable as it was, and the loop never ends.
\<close>

lemma search_loop_without_windows:
  assumes "search st" "windowshift st \<noteq> 0" "numwin_of index st = 0"
  shows "search_loop fuel ext index st = None"
proof (induction fuel)
  case 0
  show ?case by simp
next
  case (Suc fuel)
  have "window_loop ext index 0 0 0 st = Inr st"
    by (subst window_loop.simps) simp
  with assms Suc show ?case by simp
qed






subsection \<open>After the search\<close>

lemma job_after_search:
  assumes "\<not> early_termination g index (j_read job)"
    and "\<not> length (sequence (j_read job)) < unat (lnwin index (index_num index))"
    and "at (skiplengths index (index_num index)) 0 = Some w"
    and "search_loop fuel ext index
           (initial_search_state index ((j_read job)\<lparr>lastIndex := index_num index, lastPart := part index\<rparr>)
              (update_read_len (j_read job) (j_readstats job)) w) = Some (Inr st)"
  shows "parallelTraversalJob fuel g ext index job =
           Some (Inr (job\<lparr>j_read := fst (after_search g index (s_read st) (s_readstats st)),
                           j_readstats := snd (after_search g index (s_read st) (s_readstats st))\<rparr>))"
  using assms
  by (simp add: parallelTraversalJob_def early_termination_bookkeeping update_read_len_bookkeeping
      Let_def split: prod.splits)

lemma set_hit_denovo_False: "\<not> hit_denovo read \<Longrightarrow> read\<lparr>hit_denovo := False\<rparr> = read"
  by (cases read) simp

lemma fst_after_search:
  "fst (after_search g index read stats) =
     read\<lparr>hit_denovo :=
         (if \<not> hit read \<and> \<not> forward index \<and> - 1 < num_alignments_gv g \<and> de_novo_otu_gv g
          then False else hit_denovo read)\<rparr>"
proof (cases "hit_denovo read")
  case True
  then show ?thesis by (simp add: after_search_def Let_def)
next
  case False
  then show ?thesis by (simp add: after_search_def Let_def set_hit_denovo_False)
qed

text \<open>
  Claim C8, as amended. When the search loop has ended in the state \<open>st\<close>, the callback returns
  the read of \<open>st\<close> with \<^verbatim>\<open>hit_denovo\<close> set to false if the read never hit, the strand is the
  reverse one, \<^verbatim>\<open>num_alignments_gv > -1\<close> and \<^verbatim>\<open>de_novo_otu_gv\<close> is set, and with \<^verbatim>\<open>hit_denovo\<close>
  as the search left it otherwise.
\<close>

theorem denovo_flag_after_search:
  assumes "\<not> early_termination g index (j_read job)"
    and "\<not> length (sequence (j_read job)) < unat (lnwin index (index_num index))"
    and "at (skiplengths index (index_num index)) 0 = Some w"
    and "search_loop fuel ext index
           (initial_search_state index ((j_read job)\<lparr>lastIndex := index_num index, lastPart := part index\<rparr>)
              (update_read_len (j_read job) (j_readstats job)) w) = Some (Inr st)"
  shows "\<exists>job'. parallelTraversalJob fuel g ext index job = Some (Inr job')
       \<and> j_read job' = (s_read st)\<lparr>hit_denovo :=
            (if \<not> hit (s_read st) \<and> \<not> forward index \<and> - 1 < num_alignments_gv g \<and> de_novo_otu_gv g
             then False else hit_denovo (s_read st))\<rparr>"
proof -
  let ?job' = "job\<lparr>j_read := fst (after_search g index (s_read st) (s_readstats st)),
                   j_readstats := snd (after_search g index (s_read st) (s_readstats st))\<rparr>"
  have r: "parallelTraversalJob fuel g ext index job = Some (Inr ?job')"
    by (rule job_after_search [OF assms])
  have a: "j_read ?job' = (s_read st)\<lparr>hit_denovo :=
            (if \<not> hit (s_read st) \<and> \<not> forward index \<and> - 1 < num_alignments_gv g \<and> de_novo_otu_gv g
             then False else hit_denovo (s_read st))\<rparr>"
    by (simp add: fst_after_search)
  from r a show ?thesis by blast
qed

theorem denovo_flag_after_search_witness:
  "map_option (map_sum id j_read)
     (parallelTraversalJob 4 sample_globals sample_externals (sample_index\<lparr>forward := False\<rparr>)
        (sample_job sample_read))
   = Some (Inr (sample_read\<lparr>lastPart := 1, hit_denovo := False, readhit := 2,
                    id_win_hits := [\<lparr>hit_id = 7, win = 0\<rparr>, \<lparr>hit_id = 7, win = 1\<rparr>, \<lparr>hit_id = 9, win = 1\<rparr>]\<rparr>))
   \<and> hit_denovo sample_read \<and> \<not> hit sample_read
   \<and> map_option (map_sum id j_read)
       (parallelTraversalJob 4 sample_globals accepting_externals (sample_index\<lparr>forward := False\<rparr>)
          (sample_job sample_read))
   = Some (Inr (sample_read\<lparr>lastPart := 1, hit := True, readhit := 1,
                    id_win_hits := [\<lparr>hit_id = 7, win = 0\<rparr>]\<rparr>))"
proof -
  have a: "search_loop 4 sample_externals (sample_index\<lparr>forward := False\<rparr>)
           (initial_search_state (sample_index\<lparr>forward := False\<rparr>)
              ((j_read (sample_job sample_read))\<lparr>lastIndex := index_num (sample_index\<lparr>forward := False\<rparr>),
                  lastPart := part (sample_index\<lparr>forward := False\<rparr>)\<rparr>)
              (update_read_len (j_read (sample_job sample_read)) (j_readstats (sample_job sample_read))) 4)
         = Some (Inr \<lparr>s_read = sample_read\<lparr>lastPart := 1, readhit := 2,
                    id_win_hits := [\<lparr>hit_id = 7, win = 0\<rparr>, \<lparr>hit_id = 7, win = 1\<rparr>, \<lparr>hit_id = 9, win = 1\<rparr>]\<rparr>,
                 s_readstats = sample_stats\<lparr>min_read_len := 6, max_read_len := 6\<rparr>,
                 read_index_hits = [True, True, True, False, False, False],
                 windowshift = 1, pass_n = 2, search = False, read_to_count = True,
                 max_SW_score_local = 12\<rparr>)"
    by (simp add: run_simps sample_defs)
  have b: "map_option (map_sum id j_read)
       (parallelTraversalJob 4 sample_globals accepting_externals (sample_index\<lparr>forward := False\<rparr>)
          (sample_job sample_read))
   = Some (Inr (sample_read\<lparr>lastPart := 1, hit := True, readhit := 1,
                    id_win_hits := [\<lparr>hit_id = 7, win = 0\<rparr>]\<rparr>))"
    by (simp add: run_simps sample_defs)
  have e: "\<not> early_termination sample_globals (sample_index\<lparr>forward := False\<rparr>)
      (j_read (sample_job sample_read))"
    by (simp add: early_termination_def sample_defs)
  have l: "\<not> length (sequence (j_read (sample_job sample_read)))
      < unat (lnwin (sample_index\<lparr>forward := False\<rparr>) (index_num (sample_index\<lparr>forward := False\<rparr>)))"
    by (simp add: sample_defs)
  have w: "at (skiplengths (sample_index\<lparr>forward := False\<rparr>) (index_num (sample_index\<lparr>forward := False\<rparr>))) 0
      = Some 4"
    by (simp add: at_def sample_defs)
  have r: "map_option (map_sum id j_read)
     (parallelTraversalJob 4 sample_globals sample_externals (sample_index\<lparr>forward := False\<rparr>)
        (sample_job sample_read))
   = Some (Inr (sample_read\<lparr>lastPart := 1, hit_denovo := False, readhit := 2,
                    id_win_hits := [\<lparr>hit_id = 7, win = 0\<rparr>, \<lparr>hit_id = 7, win = 1\<rparr>, \<lparr>hit_id = 9, win = 1\<rparr>]\<rparr>))"
    by (simp add: run_simps sample_defs)
  have h: "hit_denovo sample_read \<and> \<not> hit sample_read" by (simp add: sample_defs)
  from denovo_flag_after_search [OF e l w a] r b h show ?thesis by blast
qed

text \<open>
  The claim as stated fails: a read that never hit keeps \<^verbatim>\<open>hit_denovo\<close> true on the reverse
  strand with \<^verbatim>\<open>num_alignments_gv = -1\<close>, and with \<^verbatim>\<open>de_novo_otu_gv\<close> not set.
\<close>

theorem denovo_flag_counterexample:
  "\<not> hit sample_read \<and> hit_denovo sample_read \<and> \<not> forward (sample_index\<lparr>forward := False\<rparr>)
   \<and> map_option (map_sum id j_read)
       (parallelTraversalJob 4 (sample_globals\<lparr>num_alignments_gv := - 1\<rparr>) sample_externals
          (sample_index\<lparr>forward := False\<rparr>) (sample_job sample_read))
      = Some (Inr (sample_read\<lparr>lastPart := 1, readhit := 2,
                    id_win_hits := [\<lparr>hit_id = 7, win = 0\<rparr>, \<lparr>hit_id = 7, win = 1\<rparr>, \<lparr>hit_id = 9, win = 1\<rparr>]\<rparr>))
   \<and> map_option (map_sum id j_read)
       (parallelTraversalJob 4 (sample_globals\<lparr>de_novo_otu_gv := False\<rparr>) sample_externals
          (sample_index\<lparr>forward := False\<rparr>) (sample_job sample_read))
      = Some (Inr (sample_read\<lparr>lastPart := 1, readhit := 2,
                    id_win_hits := [\<lparr>hit_id = 7, win = 0\<rparr>, \<lparr>hit_id = 7, win = 1\<rparr>, \<lparr>hit_id = 9, win = 1\<rparr>]\<rparr>))
   \<and> \<not> hit (sample_read\<lparr>lastPart := 1, readhit := 2,
                    id_win_hits := [\<lparr>hit_id = 7, win = 0\<rparr>, \<lparr>hit_id = 7, win = 1\<rparr>, \<lparr>hit_id = 9, win = 1\<rparr>]\<rparr>)
   \<and> hit_denovo (sample_read\<lparr>lastPart := 1, readhit := 2,
                    id_win_hits := [\<lparr>hit_id = 7, win = 0\<rparr>, \<lparr>hit_id = 7, win = 1\<rparr>, \<lparr>hit_id = 9, win = 1\<rparr>]\<rparr>)"
  by (simp add: run_simps sample_defs)

text \<open>
  The counter \<^verbatim>\<open>total_reads_denovo_clustering\<close>, which \<^verbatim>\<open>writeLog\<close> reports as the number of reads
  with \<^verbatim>\<open>hit_denovo\<close> true, is incremented at the end of every invocation that completes the
  search: the same read, processed with the same statistics against a second index part, is
  counted a second time.
\<close>

lemma denovo_counter_second_part:
  "parallelTraversalJob 4 (sample_globals\<lparr>num_alignments_gv := - 1\<rparr>) sample_externals
        (sample_index\<lparr>forward := False, part := 2\<rparr>)
        \<lparr>j_read = sample_read\<lparr>lastPart := 1, readhit := 2,
                    id_win_hits := [\<lparr>hit_id = 7, win = 0\<rparr>, \<lparr>hit_id = 7, win = 1\<rparr>, \<lparr>hit_id = 9, win = 1\<rparr>]\<rparr>,
          j_readstats = sample_stats\<lparr>min_read_len := 6, max_read_len := 6,
                                    total_reads_denovo_clustering := 1\<rparr>, cout = []\<rparr>
      = Some (Inr \<lparr>j_read = sample_read\<lparr>lastPart := 2, readhit := 4,
                    id_win_hits := [\<lparr>hit_id = 7, win = 0\<rparr>, \<lparr>hit_id = 7, win = 1\<rparr>, \<lparr>hit_id = 9, win = 1\<rparr>,
                                    \<lparr>hit_id = 7, win = 0\<rparr>, \<lparr>hit_id = 7, win = 1\<rparr>, \<lparr>hit_id = 9, win = 1\<rparr>]\<rparr>,
                 j_readstats = sample_stats\<lparr>min_read_len := 6, max_read_len := 6,
                                           total_reads_denovo_clustering := 2\<rparr>, cout = []\<rparr>)"
  by (simp add: run_simps sample_defs)

subsection \<open>Read-length statistics\<close>

lemma last_window_read_len:
  assumes "chainer_keeps_read_len ext index" "last_window ext index st = Inr st'"
  shows "read_len_stats (s_readstats st') = read_len_stats (s_readstats st)"
proof -
  let ?c = "compute_lis_alignment ext index (s_read st) (s_readstats st) (search st)
      (max_SW_score_local st) (read_to_count st)"
  obtain r rs srch rtc where c: "?c = (r, rs, srch, rtc)"
    by (cases ?c) auto
  define st1 where "st1 = st\<lparr>s_read := r, s_readstats := rs, search := srch, read_to_count := rtc\<rparr>"
  from assms(1) have "min_read_len (fst (snd ?c)) = min_read_len (s_readstats st)
      \<and> max_read_len (fst (snd ?c)) = max_read_len (s_readstats st)"
    unfolding chainer_keeps_read_len_def by blast
  then have a: "read_len_stats (s_readstats st1) = read_len_stats (s_readstats st)"
    by (simp add: c st1_def read_len_stats_def)
  have "s_readstats st' = s_readstats st1"
  proof (cases srch)
    case True
    with assms(2) c have "next_pass index st1 = Inr st'" by (simp add: last_window_def st1_def)
    then show ?thesis by (rule next_pass_frame)
  next
    case False
    with assms(2) c show ?thesis by (simp add: last_window_def st1_def)
  qed
  with a show ?thesis by simp
qed

lemma window_loop_read_len:
  "chainer_keeps_read_len ext index \<Longrightarrow>
   window_loop ext index numwin win_num win_index st = Inr st' \<Longrightarrow>
   read_len_stats (s_readstats st') = read_len_stats (s_readstats st)"
proof (induction ext index numwin win_num win_index st rule: window_loop.induct)
  case (1 ext index numwin win_num win_index st)
  note k = "1.prems"(1) and run = "1.prems"(2)
  show ?case
  proof (cases "win_num < numwin")
    case False
    with run show ?thesis by (simp add: window_loop.simps)
  next
    case True
    with run obtain st1 where b: "window_body ext index win_index st = Inr st1"
      by (subst (asm) window_loop.simps) (auto split: sum.splits)
    have s: "s_readstats st1 = s_readstats st" using window_body_frame [OF b] by simp
    show ?thesis
    proof (cases "win_num = numwin - 1")
      case True
      with run \<open>win_num < numwin\<close> b have "last_window ext index st1 = Inr st'"
        by (subst (asm) window_loop.simps) simp
      from last_window_read_len [OF k this] s show ?thesis by simp
    next
      case False
      with run \<open>win_num < numwin\<close> b
      have "window_loop ext index numwin (win_num + 1) (u32 (win_index + windowshift st1)) st1 = Inr st'"
        by (subst (asm) window_loop.simps) simp
      from "1.IH" [OF \<open>win_num < numwin\<close> b False k this] s show ?thesis by simp
    qed
  qed
qed

lemma search_loop_read_len:
  assumes "chainer_keeps_read_len ext index"
  shows "search_loop fuel ext index st = Some (Inr st') \<Longrightarrow>
         read_len_stats (s_readstats st') = read_len_stats (s_readstats st)"
proof (induction fuel arbitrary: st)
  case 0
  then show ?case by simp
next
  case (Suc fuel)
  show ?case
  proof (cases "search st")
    case False
    with Suc.prems show ?thesis by simp
  next
    case True
    with Suc.prems obtain st1 where
      w: "window_loop ext index (numwin_of index st) 0 0 st = Inr st1"
      and r: "search_loop fuel ext index st1 = Some (Inr st')"
      by (auto split: if_splits sum.splits)
    from window_loop_read_len [OF assms w] Suc.IH [OF r] show ?thesis by simp
  qed
qed

lemma update_read_len_stats:
  "read_len_stats (update_read_len read stats) =
     (if length (sequence read) < min_read_len stats then u32 (length (sequence read)) else min_read_len stats,
      if max_read_len stats < length (sequence read) then u32 (length (sequence read)) else max_read_len stats)"
  by (simp add: update_read_len_def read_len_stats_def Let_def)

lemma after_search_read_len:
  "read_len_stats (snd (after_search g index read stats)) = read_len_stats stats"
  by (simp add: after_search_def read_len_stats_def Let_def)

lemma job_read_len:
  assumes e: "\<not> early_termination g index (j_read job)"
    and k: "chainer_keeps_read_len ext index"
    and run: "parallelTraversalJob fuel g ext index job = Some (Inr job')"
  shows "read_len_stats (j_readstats job') = read_len_stats (update_read_len (j_read job) (j_readstats job))"
proof (cases "length (sequence (j_read job)) < unat (lnwin index (index_num index))")
  case True
  from too_short_result [OF e True, of fuel ext] run show ?thesis by auto
next
  case False
  let ?r1 = "(j_read job)\<lparr>lastIndex := index_num index, lastPart := part index\<rparr>"
  let ?s1 = "update_read_len (j_read job) (j_readstats job)"
  from run e False obtain w st where
    s: "search_loop fuel ext index (initial_search_state index ?r1 ?s1 w) = Some (Inr st)"
    and j: "job' = job\<lparr>j_read := fst (after_search g index (s_read st) (s_readstats st)),
                       j_readstats := snd (after_search g index (s_read st) (s_readstats st))\<rparr>"
    by (auto simp: parallelTraversalJob_def early_termination_bookkeeping update_read_len_bookkeeping
        Let_def split: option.splits sum.splits prod.splits)
  from search_loop_read_len [OF k s]
  have "read_len_stats (s_readstats st) = read_len_stats ?s1" by (simp add: initial_search_state_def)
  with j show ?thesis by (simp add: after_search_read_len)
qed

text \<open>
  Claim C10. For every read that the reverse-strand check does not skip, the callback updates
  \<^verbatim>\<open>min_read_len\<close> and \<^verbatim>\<open>max_read_len\<close> from the length of the sequence before the length check.
  So a read shorter than \<^verbatim>\<open>lnwin\<close> leaves the callback with the statistics updated, and, apart
  from \<^verbatim>\<open>lastIndex\<close> and \<^verbatim>\<open>lastPart\<close> written on entry, its rejection changes \<^verbatim>\<open>isValid\<close> only:
  \<^verbatim>\<open>alignments\<close>, \<^verbatim>\<open>id_win_hits\<close>, \<^verbatim>\<open>hit\<close> and \<^verbatim>\<open>num_alignments\<close> are unchanged. The update also
  stands after a search, if the chainer leaves the two statistics alone.
\<close>

theorem read_length_statistics_precede_length_check:
  assumes "\<not> early_termination g index (j_read job)"
  shows "(length (sequence (j_read job)) < unat (lnwin index (index_num index)) \<longrightarrow>
            (\<exists>job'. parallelTraversalJob fuel g ext index job = Some (Inr job')
               \<and> j_read job' = (j_read job)\<lparr>lastIndex := index_num index, lastPart := part index,
                                             isValid := False\<rparr>
               \<and> alignments (j_read job') = alignments (j_read job)
               \<and> id_win_hits (j_read job') = id_win_hits (j_read job)
               \<and> hit (j_read job') = hit (j_read job)
               \<and> num_alignments (j_read job') = num_alignments (j_read job)
               \<and> total_reads_denovo_clustering (j_readstats job')
                   = total_reads_denovo_clustering (j_readstats job)
               \<and> read_len_stats (j_readstats job') =
                   (if length (sequence (j_read job)) < min_read_len (j_readstats job)
                    then u32 (length (sequence (j_read job))) else min_read_len (j_readstats job),
                    if max_read_len (j_readstats job) < length (sequence (j_read job))
                    then u32 (length (sequence (j_read job))) else max_read_len (j_readstats job))))
       \<and> (chainer_keeps_read_len ext index \<longrightarrow>
            parallelTraversalJob fuel g ext index job = Some (Inr job'') \<longrightarrow>
            read_len_stats (j_readstats job'') =
              (if length (sequence (j_read job)) < min_read_len (j_readstats job)
               then u32 (length (sequence (j_read job))) else min_read_len (j_readstats job),
               if max_read_len (j_readstats job) < length (sequence (j_read job))
               then u32 (length (sequence (j_read job))) else max_read_len (j_readstats job)))"
proof (intro conjI impI)
  assume s: "length (sequence (j_read job)) < unat (lnwin index (index_num index))"
  have t: "total_reads_denovo_clustering (update_read_len (j_read job) (j_readstats job))
      = total_reads_denovo_clustering (j_readstats job)"
    by (simp add: update_read_len_def Let_def)
  from too_short_result [OF assms s, of fuel ext] t
  show "\<exists>job'. parallelTraversalJob fuel g ext index job = Some (Inr job')
               \<and> j_read job' = (j_read job)\<lparr>lastIndex := index_num index, lastPart := part index,
                                             isValid := False\<rparr>
               \<and> alignments (j_read job') = alignments (j_read job)
               \<and> id_win_hits (j_read job') = id_win_hits (j_read job)
               \<and> hit (j_read job') = hit (j_read job)
               \<and> num_alignments (j_read job') = num_alignments (j_read job)
               \<and> total_reads_denovo_clustering (j_readstats job')
                   = total_reads_denovo_clustering (j_readstats job)
               \<and> read_len_stats (j_readstats job') =
                   (if length (sequence (j_read job)) < min_read_len (j_readstats job)
                    then u32 (length (sequence (j_read job))) else min_read_len (j_readstats job),
                    if max_read_len (j_readstats job) < length (sequence (j_read job))
                    then u32 (length (sequence (j_read job))) else max_read_len (j_readstats job))"
    by (simp add: update_read_len_stats)
next
  assume k: "chainer_keeps_read_len ext index"
    and r: "parallelTraversalJob fuel g ext index job = Some (Inr job'')"
  from job_read_len [OF assms k r]
  show "read_len_stats (j_readstats job'') =
              (if length (sequence (j_read job)) < min_read_len (j_readstats job)
               then u32 (length (sequence (j_read job))) else min_read_len (j_readstats job),
               if max_read_len (j_readstats job) < length (sequence (j_read job))
               then u32 (length (sequence (j_read job))) else max_read_len (j_readstats job))"
    by (simp add: update_read_len_stats)
qed

theorem read_length_statistics_precede_length_check_witness:
  "parallelTraversalJob 4 sample_globals sample_externals sample_index (sample_job short_read)
     = Some (Inr \<lparr>j_read = short_read\<lparr>lastIndex := 0, lastPart := 1, isValid := False\<rparr>,
                   j_readstats = sample_stats\<lparr>min_read_len := 2, max_read_len := 2\<rparr>,
                   cout = [Warning_read_too_short 5 4]\<rparr>)
   \<and> read_len_stats (sample_stats\<lparr>min_read_len := 2, max_read_len := 2\<rparr>) = (2, 2)
   \<and> read_len_stats sample_stats = (100, 0)
   \<and> length (sequence short_read) = 2
   \<and> unat (lnwin sample_index (index_num sample_index)) = 4"
proof -
  have e: "\<not> early_termination sample_globals sample_index (j_read (sample_job short_read))"
    by (simp add: early_termination_def sample_defs)
  have r: "parallelTraversalJob 4 sample_globals sample_externals sample_index (sample_job short_read)
     = Some (Inr \<lparr>j_read = short_read\<lparr>lastIndex := 0, lastPart := 1, isValid := False\<rparr>,
                   j_readstats = sample_stats\<lparr>min_read_len := 2, max_read_len := 2\<rparr>,
                   cout = [Warning_read_too_short 5 4]\<rparr>)"
    by (simp add: run_simps sample_defs)
  have k: "chainer_keeps_read_len sample_externals sample_index"
    by (simp add: chainer_keeps_read_len_def sample_defs)
  have v: "read_len_stats (sample_stats\<lparr>min_read_len := 2, max_read_len := 2\<rparr>) = (2, 2)
   \<and> read_len_stats sample_stats = (100, 0)
   \<and> length (sequence short_read) = 2
   \<and> unat (lnwin sample_index (index_num sample_index)) = 4"
    by (simp add: read_len_stats_def sample_defs)
  from read_length_statistics_precede_length_check [OF e, where fuel = 4 and ext = sample_externals, THEN conjunct2, rule_format, OF k r] r v
  show ?thesis by blast
qed

end
